theory Spec2Isabelle
  imports Complex_Main "HOL-Library.AList" "HOL-Library.Sublist"
begin

section \<open>Stock data pipeline: data model\<close>

text \<open>
  A shallow embedding of \<^verbatim>\<open>src/scripts/stock_data_fetcher.py\<close> and
  \<^verbatim>\<open>src/dags/stock_pipeline.py\<close>.

  Conventions of the embedding:
  \<^item> a Python exception is a value of \<open>py_error\<close>; a function that can raise returns
    \<open>py_error + 'a\<close> (\<open>Inl\<close> is the raised exception);
  \<^item> everything outside the process (environment variables, the wall clock, the random
    generator, the HTTP endpoint, the database server) is a field of the record \<open>world\<close>,
    passed in and returned updated; every network and database call is appended to
    \<open>trace\<close>;
  \<^item> a Python \<open>float\<close> is an exact rational (\<open>rat\<close>): binary rounding error, infinities
    and NaN are not represented;
  \<^item> a naive \<open>datetime\<close> is an integer number of microseconds since 1970-01-01 00:00:00;
  \<^item> logging is not represented.
\<close>

subsection \<open>Exceptions\<close>

text \<open>
  The exception classes the two modules raise or catch. The last four are the
  \<open>Exception(...)\<close> and \<open>ValueError(...)\<close> instances the code constructs itself, kept apart
  by their message: \<open>ApiError\<close> is \<open>Exception("API Error: ...")\<close>, \<open>NoTimeSeries\<close> is
  \<open>Exception("No time series data found for ...")\<close>, \<open>TableNotFound\<close> is
  \<open>Exception("Required table 'stock_prices' not found")\<close> and \<open>MissingEnvVars vs\<close> is
  \<open>ValueError("Missing required environment variables: vs")\<close>. \<open>DbError\<close> stands for any
  \<open>psycopg2.Error\<close>.
\<close>

datatype py_error =
    ValueError
  | KeyError
  | TypeError
  | AttributeError
  | OverflowError
  | RequestException
  | DbError
  | ApiError
  | NoTimeSeries
  | TableNotFound
  | MissingEnvVars "string list"

subsection \<open>JSON values as Python sees them\<close>

datatype json =
    JNull
  | JBool bool
  | JInt int
  | JFloat rat
  | JStr string
  | JArr "json list"
  | JObj "(string \<times> json) list"

text \<open>\<open>key in data\<close> for a string key: dictionary membership, list membership, substring
  test on a string, and \<open>TypeError\<close> on everything else.\<close>

fun py_in :: "string \<Rightarrow> json \<Rightarrow> py_error + bool" where
  "py_in k (JObj kvs) = Inr (map_of kvs k \<noteq> None)"
| "py_in k (JArr xs) = Inr (List.member xs (JStr k))"
| "py_in k (JStr s) = Inr (sublist k s)"
| "py_in k JNull = Inl TypeError"
| "py_in k (JBool b) = Inl TypeError"
| "py_in k (JInt i) = Inl TypeError"
| "py_in k (JFloat x) = Inl TypeError"

text \<open>\<open>data[key]\<close> for a string key: only a dictionary can be indexed by a string.\<close>

fun py_getitem :: "json \<Rightarrow> string \<Rightarrow> py_error + json" where
  "py_getitem (JObj kvs) k = (case map_of kvs k of None \<Rightarrow> Inl KeyError | Some v \<Rightarrow> Inr v)"
| "py_getitem (JArr xs) k = Inl TypeError"
| "py_getitem (JStr s) k = Inl TypeError"
| "py_getitem JNull k = Inl TypeError"
| "py_getitem (JBool b) k = Inl TypeError"
| "py_getitem (JInt i) k = Inl TypeError"
| "py_getitem (JFloat x) k = Inl TypeError"

text \<open>\<open>data.items()\<close>: only a dictionary has the method.\<close>

fun py_items :: "json \<Rightarrow> py_error + (string \<times> json) list" where
  "py_items (JObj kvs) = Inr kvs"
| "py_items (JArr xs) = Inl AttributeError"
| "py_items (JStr s) = Inl AttributeError"
| "py_items JNull = Inl AttributeError"
| "py_items (JBool b) = Inl AttributeError"
| "py_items (JInt i) = Inl AttributeError"
| "py_items (JFloat x) = Inl AttributeError"

subsection \<open>The parts of the Python library the parser calls\<close>

text \<open>
  \<open>datetime.strptime(s, '%Y-%m-%d %H:%M:%S')\<close>, \<open>float(s)\<close> and \<open>int(s)\<close> on a string, and
  \<open>float(i)\<close> on an integer, are parameters of the model: \<open>None\<close> is \<open>ValueError\<close> for the
  first three and \<open>OverflowError\<close> for the last. Every theorem below holds for all of them.
\<close>

record pylib =
  strptime :: "string \<Rightarrow> int option"
  float_of_str :: "string \<Rightarrow> rat option"
  int_of_str :: "string \<Rightarrow> int option"
  float_of_int :: "int \<Rightarrow> rat option"

fun py_float :: "pylib \<Rightarrow> json \<Rightarrow> py_error + rat" where
  "py_float L (JStr s) = (case float_of_str L s of None \<Rightarrow> Inl ValueError | Some x \<Rightarrow> Inr x)"
| "py_float L (JInt i) = (case float_of_int L i of None \<Rightarrow> Inl OverflowError | Some x \<Rightarrow> Inr x)"
| "py_float L (JFloat x) = Inr x"
| "py_float L (JBool b) = Inr (if b then 1 else 0)"
| "py_float L JNull = Inl TypeError"
| "py_float L (JArr xs) = Inl TypeError"
| "py_float L (JObj kvs) = Inl TypeError"

text \<open>\<open>int(x)\<close> truncates a float towards zero.\<close>

definition trunc_int :: "rat \<Rightarrow> int" where
  "trunc_int x = (if 0 \<le> x then \<lfloor>x\<rfloor> else \<lceil>x\<rceil>)"

fun py_int :: "pylib \<Rightarrow> json \<Rightarrow> py_error + int" where
  "py_int L (JStr s) = (case int_of_str L s of None \<Rightarrow> Inl ValueError | Some i \<Rightarrow> Inr i)"
| "py_int L (JInt i) = Inr i"
| "py_int L (JFloat x) = Inr (trunc_int x)"
| "py_int L (JBool b) = Inr (if b then 1 else 0)"
| "py_int L JNull = Inl TypeError"
| "py_int L (JArr xs) = Inl TypeError"
| "py_int L (JObj kvs) = Inl TypeError"

subsection \<open>Decimal output\<close>

definition digit_char :: "nat \<Rightarrow> char" where
  "digit_char d = char_of (48 + d)"

definition is_digit :: "char \<Rightarrow> bool" where
  "is_digit c = (48 \<le> (of_char c :: nat) \<and> (of_char c :: nat) \<le> 57)"

definition digit_val :: "char \<Rightarrow> nat" where
  "digit_val c = of_char c - 48"

text \<open>\<open>str(n)\<close> for a natural number.\<close>

function show_nat :: "nat \<Rightarrow> string" where
  "show_nat n = (if n < 10 then [digit_char n] else show_nat (n div 10) @ [digit_char (n mod 10)])"
  by pat_completeness auto
termination
  by (relation "measure id") auto

declare show_nat.simps [simp del]

text \<open>\<open>str(i)\<close> for an integer.\<close>

definition show_int :: "int \<Rightarrow> string" where
  "show_int i = (if i < 0 then CHR ''-'' # show_nat (nat (- i)) else show_nat (nat i))"

text \<open>Two digits, zero padded (\<open>%m\<close>, \<open>%d\<close>, \<open>%H\<close>, \<open>%M\<close>, \<open>%S\<close>, and the decimals of
  \<open>.2f\<close>).\<close>

definition show2 :: "nat \<Rightarrow> string" where
  "show2 n = [digit_char (n div 10 mod 10), digit_char (n mod 10)]"

text \<open>Four digits, zero padded (\<open>%Y\<close> for the years 1 to 9999 of \<open>datetime\<close>).\<close>

definition show4 :: "nat \<Rightarrow> string" where
  "show4 n = show2 (n div 100) @ show2 (n mod 100)"

text \<open>Rounding to the nearest integer, ties to even: what \<open>'{:.2f}'\<close> does to the
  hundredths of the value it prints.\<close>

definition round_half_even :: "rat \<Rightarrow> int" where
  "round_half_even y =
     (let f = \<lfloor>y\<rfloor>; d = y - of_int f
      in if d < 1 / 2 then f else if 1 / 2 < d then f + 1 else if even f then f else f + 1)"

definition cents :: "rat \<Rightarrow> int" where
  "cents x = round_half_even (x * 100)"

text \<open>\<open>f'{x:.2f}'\<close>.\<close>

definition fmt2f :: "rat \<Rightarrow> string" where
  "fmt2f x =
     (let c = nat (cents \<bar>x\<bar>)
      in (if x < 0 then ''-'' else '''') @ show_nat (c div 100) @ ''.'' @ show2 (c mod 100))"

text \<open>Reading back, in hundredths, a price printed by \<open>fmt2f\<close>: digits, a point, two
  digits. It is used only to state what the printed prices are.\<close>

fun read_digits :: "nat \<Rightarrow> string \<Rightarrow> nat option" where
  "read_digits acc [] = Some acc"
| "read_digits acc (c # cs) =
     (if is_digit c then read_digits (10 * acc + digit_val c) cs else None)"

definition read_nat :: "string \<Rightarrow> nat option" where
  "read_nat s = (if s = [] then None else read_digits 0 s)"

definition read2f :: "string \<Rightarrow> int option" where
  "read2f s =
     (let n = length s
      in if n < 4 then None
         else if s ! (n - 3) \<noteq> CHR ''.'' then None
         else (case (read_nat (take (n - 3) s), read_nat (drop (n - 2) s)) of
                 (Some a, Some b) \<Rightarrow> Some (int (100 * a + b))
               | _ \<Rightarrow> None))"

subsection \<open>Dates\<close>

definition HOUR :: int where
  "HOUR = 3600000000"

text \<open>The proleptic Gregorian date (year, month, day) of a day number counted from
  1970-01-01.\<close>

definition civil_from_days :: "int \<Rightarrow> int \<times> int \<times> int" where
  "civil_from_days z0 =
     (let z = z0 + 719468;
          era = z div 146097;
          doe = z - era * 146097;
          yoe = (doe - doe div 1460 + doe div 36524 - doe div 146096) div 365;
          doy = doe - (365 * yoe + yoe div 4 - yoe div 100);
          mp = (5 * doy + 2) div 153;
          d = doy - (153 * mp + 2) div 5 + 1;
          m = (if mp < 10 then mp + 3 else mp - 9);
          y = yoe + era * 400 + (if m \<le> 2 then 1 else 0)
      in (y, m, d))"

definition show_date :: "int \<Rightarrow> string" where
  "show_date day =
     (case civil_from_days day of
        (y, m, d) \<Rightarrow> show4 (nat y) @ ''-'' @ show2 (nat m) @ ''-'' @ show2 (nat d))"

text \<open>\<open>t.strftime('%Y-%m-%d %H:00:00')\<close>: the text depends on the hour that \<open>t\<close> lies in,
  counted from the epoch.\<close>

definition hour_stamp :: "int \<Rightarrow> string" where
  "hour_stamp h = show_date (h div 24) @ '' '' @ show2 (nat (h mod 24)) @ '':00:00''"

definition strftime_hour :: "int \<Rightarrow> string" where
  "strftime_hour t = hour_stamp (t div HOUR)"

text \<open>\<open>t.strftime('%Y-%m-%d %H:%M:%S')\<close>.\<close>

definition strftime_full :: "int \<Rightarrow> string" where
  "strftime_full t =
     (let s = t div 1000000
      in show_date (s div 86400) @ '' '' @ show2 (nat (s div 3600 mod 24)) @ '':''
           @ show2 (nat (s div 60 mod 60)) @ '':'' @ show2 (nat (s mod 60)))"

subsection \<open>The world outside the process\<close>

datatype http_result =
    ConnectionFailed
  | HttpStatusError
  | BadJson
  | JsonBody json

datatype event =
    NetGet string
  | DbConnect
  | DbCursor
  | DbExecute
  | DbFetchone
  | DbCommit
  | DbRollback
  | DbCursorClose
  | DbClose

text \<open>The columns of \<open>stock_prices\<close>: what the code parses (\<open>parsed_data\<close>), and the
  stored row, which has \<open>created_at\<close> as well.\<close>

record quote =
  symbol :: string
  timestamp :: int
  open_price :: rat
  high_price :: rat
  low_price :: rat
  close_price :: rat
  volume :: int

record row = quote +
  created_at :: int

text \<open>
  \<^item> \<open>env\<close>: the process environment (\<open>os.getenv\<close>);
  \<^item> \<open>clock\<close>, \<open>clock_reads\<close>: the readings of \<open>datetime.now()\<close>, and how many were taken;
  \<^item> \<open>rnd\<close>, \<open>rnd_draws\<close>: the results of \<open>random.random()\<close>, in \<open>[0, 1)\<close>;
  \<^item> \<open>rbelow\<close>, \<open>rbelow_draws\<close>: the results of the generator's \<open>_randbelow(n)\<close>, in
    \<open>[0, n)\<close>;
  \<^item> \<open>net\<close>, \<open>net_calls\<close>: what the i-th \<open>requests.get\<close> for a symbol and an API key does;
  \<^item> \<open>db_fault\<close>, \<open>db_ops\<close>: whether the i-th call to the database driver raises;
  \<^item> \<open>db_clock\<close>: \<open>CURRENT_TIMESTAMP\<close> of a transaction that starts at a given call;
  \<^item> \<open>created_at_default\<close>: the value an \<open>INSERT\<close> gives \<open>created_at\<close>, from the
    transaction's timestamp (the table's declaration is not part of the sources);
  \<^item> \<open>has_table\<close>, \<open>stock_prices\<close>: the committed state of the database;
  \<^item> \<open>open_conns\<close>: connections opened and not closed;
  \<^item> \<open>trace\<close>: every network and database call made, in order.
\<close>

record world =
  env :: "string \<Rightarrow> string option"
  clock :: "nat \<Rightarrow> int"
  clock_reads :: nat
  rnd :: "nat \<Rightarrow> rat"
  rnd_draws :: nat
  rbelow :: "nat \<Rightarrow> int \<Rightarrow> int"
  rbelow_draws :: nat
  net :: "nat \<Rightarrow> string \<Rightarrow> string \<Rightarrow> http_result"
  net_calls :: nat
  db_fault :: "nat \<Rightarrow> bool"
  db_ops :: nat
  db_clock :: "nat \<Rightarrow> int"
  created_at_default :: "int \<Rightarrow> int"
  has_table :: bool
  stock_prices :: "row list"
  open_conns :: nat
  trace :: "event list"

text \<open>\<open>datetime.now()\<close>.\<close>

definition now :: "world \<Rightarrow> int \<times> world" where
  "now w = (clock w (clock_reads w), w\<lparr>clock_reads := Suc (clock_reads w)\<rparr>)"

text \<open>\<open>random.uniform(a, b)\<close>, which is \<open>a + (b - a) * random()\<close>.\<close>

definition uniform :: "rat \<Rightarrow> rat \<Rightarrow> world \<Rightarrow> rat \<times> world" where
  "uniform a b w = (a + (b - a) * rnd w (rnd_draws w), w\<lparr>rnd_draws := Suc (rnd_draws w)\<rparr>)"

text \<open>\<open>random.randint(a, b)\<close>, which is \<open>a + _randbelow(b - a + 1)\<close>.\<close>

definition randint :: "int \<Rightarrow> int \<Rightarrow> world \<Rightarrow> int \<times> world" where
  "randint a b w =
     (a + rbelow w (rbelow_draws w) (b - a + 1), w\<lparr>rbelow_draws := Suc (rbelow_draws w)\<rparr>)"

text \<open>One call to the database driver: it is recorded, and it raises or not.\<close>

definition db_call :: "event \<Rightarrow> world \<Rightarrow> bool \<times> world" where
  "db_call ev w = (db_fault w (db_ops w), w\<lparr>db_ops := Suc (db_ops w), trace := trace w @ [ev]\<rparr>)"

text \<open>A driver call followed by the rest of the block: a raising call ends the block.\<close>

definition db_try ::
  "event \<Rightarrow> world \<Rightarrow> (world \<Rightarrow> (py_error + 'a) \<times> world) \<Rightarrow> (py_error + 'a) \<times> world" where
  "db_try ev w k = (case db_call ev w of (failed, w1) \<Rightarrow> if failed then (Inl DbError, w1) else k w1)"

section \<open>The environment guard and the connection guard\<close>

definition required_vars :: "string list" where
  "required_vars = [''ALPHA_VANTAGE_API_KEY'']"

text \<open>\<open>not os.getenv(var)\<close>: unset, or set to the empty string.\<close>

definition not_set :: "world \<Rightarrow> string \<Rightarrow> bool" where
  "not_set w var = (case env w var of None \<Rightarrow> True | Some v \<Rightarrow> v = [])"

definition check_environment_variables :: "world \<Rightarrow> (py_error + bool) \<times> world" where
  "check_environment_variables w =
     (let missing_vars = filter (not_set w) required_vars
      in if missing_vars \<noteq> [] then (Inl (MissingEnvVars missing_vars), w) else (Inr True, w))"

definition get_database_connection :: "world \<Rightarrow> (py_error + unit) \<times> world" where
  "get_database_connection w =
     (case db_call DbConnect w of
        (failed, w1) \<Rightarrow>
          if failed then (Inl DbError, w1)
          else (Inr (), w1\<lparr>open_conns := Suc (open_conns w1)\<rparr>))"

text \<open>\<open>conn.close()\<close>.\<close>

definition conn_close :: "world \<Rightarrow> (py_error + unit) \<times> world" where
  "conn_close w =
     (case db_call DbClose w of
        (failed, w1) \<Rightarrow>
          if failed then (Inl DbError, w1)
          else (Inr (), w1\<lparr>open_conns := open_conns w1 - 1\<rparr>))"

text \<open>The \<open>except\<close> clause of \<open>validate_database_connection\<close> logs and raises again, so
  an exception of the block is the result as it is.\<close>

definition validate_database_connection :: "world \<Rightarrow> (py_error + bool) \<times> world" where
  "validate_database_connection w =
     (case get_database_connection w of
        (Inl e, w1) \<Rightarrow> (Inl e, w1)
      | (Inr u, w1) \<Rightarrow>
          db_try DbCursor w1 (\<lambda>w2.
          db_try DbExecute w2 (\<lambda>w3.
          db_try DbFetchone w3 (\<lambda>w4.
            if \<not> has_table w4 then (Inl TableNotFound, w4)
            else
              db_try DbCursorClose w4 (\<lambda>w5.
                case conn_close w5 of
                  (Inl e, w6) \<Rightarrow> (Inl e, w6)
                | (Inr u', w6) \<Rightarrow> (Inr True, w6))))))"

section \<open>The data source client\<close>

definition ALPHA_VANTAGE_API_KEY :: string where
  "ALPHA_VANTAGE_API_KEY = ''ALPHA_VANTAGE_API_KEY''"

definition time_series_key :: string where
  "time_series_key = ''Time Series (60min)''"

definition base_prices :: "(string \<times> rat) list" where
  "base_prices =
     [(''AAPL'', 150), (''GOOGL'', 2800), (''MSFT'', 300), (''AMZN'', 3000), (''TSLA'', 200)]"

text \<open>\<open>base_prices.get(symbol, 100.0)\<close>.\<close>

definition base_price :: "string \<Rightarrow> rat" where
  "base_price smb = (case map_of base_prices smb of None \<Rightarrow> 100 | Some p \<Rightarrow> p)"

text \<open>The five random draws of one data point: open, high, low, close and volume, before
  they are printed.\<close>

record point =
  p_open :: rat
  p_high :: rat
  p_low :: rat
  p_close :: rat
  p_volume :: int

definition draw_point :: "rat \<Rightarrow> world \<Rightarrow> point \<times> world" where
  "draw_point base w =
     (case uniform (- (5 / 100)) (5 / 100) w of (variation, w1) \<Rightarrow>
      let opn = base * (1 + variation) in
      case uniform 0 (2 / 100) w1 of (up, w2) \<Rightarrow>
      let hi = opn * (1 + up) in
      case uniform 0 (2 / 100) w2 of (down, w3) \<Rightarrow>
      let lo = opn * (1 - down) in
      case uniform lo hi w3 of (cl, w4) \<Rightarrow>
      case randint 100000 1000000 w4 of (vol, w5) \<Rightarrow>
        (\<lparr>p_open = opn, p_high = hi, p_low = lo, p_close = cl, p_volume = vol\<rparr>, w5))"

text \<open>The five labelled string fields of one entry.\<close>

definition print_point :: "point \<Rightarrow> json" where
  "print_point p =
     JObj [(''1. open'', JStr (fmt2f (p_open p))),
           (''2. high'', JStr (fmt2f (p_high p))),
           (''3. low'', JStr (fmt2f (p_low p))),
           (''4. close'', JStr (fmt2f (p_close p))),
           (''5. volume'', JStr (show_int (p_volume p)))]"

text \<open>One round of the loop \<open>for i in range(5)\<close>: the clock is read, the point is drawn,
  and the entry is stored under its timestamp (\<open>d[k] = v\<close> is \<open>AList.update\<close>: an existing
  key keeps its place and takes the new value).\<close>

definition demo_step ::
  "rat \<Rightarrow> nat \<Rightarrow> (string \<times> json) list \<Rightarrow> world \<Rightarrow> (string \<times> json) list \<times> world" where
  "demo_step base i series w =
     (case now w of (t, w1) \<Rightarrow>
      case draw_point base w1 of (p, w2) \<Rightarrow>
        (AList.update (strftime_hour (t - int i * HOUR)) (print_point p) series, w2))"

fun demo_loop ::
  "rat \<Rightarrow> nat list \<Rightarrow> (string \<times> json) list \<Rightarrow> world \<Rightarrow> (string \<times> json) list \<times> world" where
  "demo_loop base [] series w = (series, w)"
| "demo_loop base (i # rest) series w =
     (case demo_step base i series w of (series', w') \<Rightarrow> demo_loop base rest series' w')"

definition meta_data :: "string \<Rightarrow> int \<Rightarrow> json" where
  "meta_data smb t =
     JObj [(''1. Information'', JStr ''Intraday (60min) open, high, low, close prices and volume''),
           (''2. Symbol'', JStr smb),
           (''3. Last Refreshed'', JStr (strftime_full t)),
           (''4. Interval'', JStr ''60min''),
           (''5. Output Size'', JStr ''Compact''),
           (''6. Time Zone'', JStr ''US/Eastern'')]"

text \<open>\<open>_get_demo_data\<close>.\<close>

definition get_demo_data :: "string \<Rightarrow> world \<Rightarrow> json \<times> world" where
  "get_demo_data smb w =
     (case now w of (t, w1) \<Rightarrow>
      case demo_loop (base_price smb) [0 ..< 5] [] w1 of (series, w2) \<Rightarrow>
        (JObj [(''Meta Data'', meta_data smb t), (time_series_key, JObj series)], w2))"

text \<open>\<open>requests.get(...)\<close>, \<open>raise_for_status()\<close> and \<open>response.json()\<close>: the request is
  recorded; a transport failure, an HTTP error status and a body that is not JSON are all
  exceptions.\<close>

definition after_get :: "string \<Rightarrow> world \<Rightarrow> world" where
  "after_get smb w = w\<lparr>net_calls := Suc (net_calls w), trace := trace w @ [NetGet smb]\<rparr>"

definition http_get :: "string \<Rightarrow> string \<Rightarrow> world \<Rightarrow> (py_error + json) \<times> world" where
  "http_get smb api_key w =
     (let w1 = after_get smb w
      in case net w (net_calls w) smb api_key of
           ConnectionFailed \<Rightarrow> (Inl RequestException, w1)
         | HttpStatusError \<Rightarrow> (Inl RequestException, w1)
         | BadJson \<Rightarrow> (Inl ValueError, w1)
         | JsonBody data \<Rightarrow> (Inr data, w1))"

text \<open>The \<open>try\<close> block of \<open>fetch_stock_data\<close>. \<open>Inr None\<close> is one of its two
  \<open>return _get_demo_data(symbol)\<close>, \<open>Inr (Some data)\<close> is \<open>return data\<close>.\<close>

definition check_payload :: "json \<Rightarrow> py_error + json option" where
  "check_payload data =
     (case py_in ''Error Message'' data of
        Inl e \<Rightarrow> Inl e
      | Inr True \<Rightarrow>
          (case py_getitem data ''Error Message'' of Inl e \<Rightarrow> Inl e | Inr m \<Rightarrow> Inl ApiError)
      | Inr False \<Rightarrow>
          (case py_in ''Note'' data of
             Inl e \<Rightarrow> Inl e
           | Inr True \<Rightarrow>
               (case py_getitem data ''Note'' of Inl e \<Rightarrow> Inl e | Inr m \<Rightarrow> Inr None)
           | Inr False \<Rightarrow>
               (case py_in time_series_key data of
                  Inl e \<Rightarrow> Inl e
                | Inr False \<Rightarrow> Inr None
                | Inr True \<Rightarrow> Inr (Some data))))"

definition fetch_try :: "string \<Rightarrow> string \<Rightarrow> world \<Rightarrow> (py_error + json option) \<times> world" where
  "fetch_try smb api_key w =
     (case http_get smb api_key w of
        (Inl e, w1) \<Rightarrow> (Inl e, w1)
      | (Inr data, w1) \<Rightarrow> (check_payload data, w1))"

text \<open>\<open>if not api_key or api_key == 'your_api_key_here'\<close>.\<close>

definition no_valid_key :: "string option \<Rightarrow> bool" where
  "no_valid_key k = (case k of None \<Rightarrow> True | Some v \<Rightarrow> v = [] \<or> v = ''your_api_key_here'')"

text \<open>\<open>fetch_stock_data\<close>: both \<open>except\<close> clauses (\<open>RequestException\<close>, then
  \<open>Exception\<close>) return demo data; they differ in what they log.\<close>

definition fetch_stock_data :: "string \<Rightarrow> world \<Rightarrow> (py_error + json) \<times> world" where
  "fetch_stock_data smb w =
     (let api_key = env w ALPHA_VANTAGE_API_KEY
      in if no_valid_key api_key then
           (case get_demo_data smb w of (d, w1) \<Rightarrow> (Inr d, w1))
         else
           (case fetch_try smb (the api_key) w of
              (Inr (Some data), w1) \<Rightarrow> (Inr data, w1)
            | (Inr None, w1) \<Rightarrow> (case get_demo_data smb w1 of (d, w2) \<Rightarrow> (Inr d, w2))
            | (Inl e, w1) \<Rightarrow>
                if e = RequestException
                then (case get_demo_data smb w1 of (d, w2) \<Rightarrow> (Inr d, w2))
                else (case get_demo_data smb w1 of (d, w2) \<Rightarrow> (Inr d, w2))))"

section \<open>The upsert writer\<close>

text \<open>\<open>float(values[k])\<close> and \<open>int(values[k])\<close>: the lookup raises first.\<close>

definition field_float :: "pylib \<Rightarrow> json \<Rightarrow> string \<Rightarrow> py_error + rat" where
  "field_float L vals k = (case py_getitem vals k of Inl e \<Rightarrow> Inl e | Inr v \<Rightarrow> py_float L v)"

definition field_int :: "pylib \<Rightarrow> json \<Rightarrow> string \<Rightarrow> py_error + int" where
  "field_int L vals k = (case py_getitem vals k of Inl e \<Rightarrow> Inl e | Inr v \<Rightarrow> py_int L v)"

text \<open>The dictionary display \<open>parsed_data = {...}\<close>: its values are evaluated in order, and
  the first exception ends it.\<close>

definition parse_entry :: "pylib \<Rightarrow> string \<Rightarrow> string \<Rightarrow> json \<Rightarrow> py_error + quote" where
  "parse_entry L smb ts vals =
     (case strptime L ts of None \<Rightarrow> Inl ValueError | Some t \<Rightarrow>
      case field_float L vals ''1. open'' of Inl e \<Rightarrow> Inl e | Inr opn \<Rightarrow>
      case field_float L vals ''2. high'' of Inl e \<Rightarrow> Inl e | Inr hi \<Rightarrow>
      case field_float L vals ''3. low'' of Inl e \<Rightarrow> Inl e | Inr lo \<Rightarrow>
      case field_float L vals ''4. close'' of Inl e \<Rightarrow> Inl e | Inr cl \<Rightarrow>
      case field_int L vals ''5. volume'' of Inl e \<Rightarrow> Inl e | Inr vol \<Rightarrow>
        Inr \<lparr>symbol = smb, timestamp = t, open_price = opn, high_price = hi,
             low_price = lo, close_price = cl, volume = vol\<rparr>)"

text \<open>The conflict target \<open>(symbol, timestamp)\<close>.\<close>

definition same_key :: "quote \<Rightarrow> row \<Rightarrow> bool" where
  "same_key q r = (symbol r = symbol q \<and> timestamp r = timestamp q)"

definition row_key :: "row \<Rightarrow> string \<times> int" where
  "row_key r = (symbol r, timestamp r)"

text \<open>\<open>DO UPDATE SET ...\<close>: the four prices and the volume of the proposed row, and
  \<open>created_at = CURRENT_TIMESTAMP\<close>.\<close>

definition overwrite :: "int \<Rightarrow> quote \<Rightarrow> row \<Rightarrow> row" where
  "overwrite ts q r =
     r\<lparr>open_price := open_price q, high_price := high_price q, low_price := low_price q,
       close_price := close_price q, volume := volume q, created_at := ts\<rparr>"

definition new_row :: "int \<Rightarrow> quote \<Rightarrow> row" where
  "new_row c q =
     \<lparr>symbol = symbol q, timestamp = timestamp q, open_price = open_price q,
      high_price = high_price q, low_price = low_price q, close_price = close_price q,
      volume = volume q, created_at = c\<rparr>"

text \<open>\<open>INSERT ... ON CONFLICT (symbol, timestamp) DO UPDATE ... RETURNING (xmax = 0)\<close> on
  the rows the transaction sees: the new table, and whether the row was inserted.\<close>

definition upsert :: "(int \<Rightarrow> int) \<Rightarrow> int \<Rightarrow> quote \<Rightarrow> row list \<Rightarrow> row list \<times> bool" where
  "upsert dflt ts q tbl =
     (if list_ex (same_key q) tbl
      then (map (\<lambda>r. if same_key q r then overwrite ts q r else r) tbl, False)
      else (tbl @ [new_row (dflt ts) q], True))"

text \<open>The state of the loop: the table as the open transaction sees it, and the two
  counters.\<close>

record batch =
  work :: "row list"
  inserted :: nat
  updated :: nat

text \<open>\<open>cursor.execute(insert_query, parsed_data)\<close> and \<open>cursor.fetchone()\<close>, then the
  counters. The statement fails when the driver does or when the table does not exist.\<close>

definition write_quote :: "int \<Rightarrow> quote \<Rightarrow> batch \<Rightarrow> world \<Rightarrow> (py_error + batch) \<times> world" where
  "write_quote ts q b w =
     db_try DbExecute w (\<lambda>w1.
       if \<not> has_table w1 then (Inl DbError, w1)
       else
         (case upsert (created_at_default w1) ts q (work b) of
            (tbl, ins) \<Rightarrow>
              db_try DbFetchone w1 (\<lambda>w2.
                (Inr (if ins then b\<lparr>work := tbl, inserted := inserted b + 1\<rparr>
                      else b\<lparr>work := tbl, updated := updated b + 1\<rparr>), w2))))"

text \<open>\<open>for timestamp, values in time_series.items()\<close>: \<open>ValueError\<close> and \<open>KeyError\<close> skip
  the entry, every other exception leaves the loop.\<close>

fun store_loop ::
  "pylib \<Rightarrow> string \<Rightarrow> int \<Rightarrow> (string \<times> json) list \<Rightarrow> batch \<Rightarrow> world
     \<Rightarrow> (py_error + batch) \<times> world" where
  "store_loop L smb ts [] b w = (Inr b, w)"
| "store_loop L smb ts ((k, vals) # rest) b w =
     (case parse_entry L smb k vals of
        Inl e \<Rightarrow>
          if e = ValueError \<or> e = KeyError then store_loop L smb ts rest b w
          else (Inl e, w)
      | Inr q \<Rightarrow>
          (case write_quote ts q b w of
             (Inl e, w1) \<Rightarrow> (Inl e, w1)
           | (Inr b1, w1) \<Rightarrow> store_loop L smb ts rest b1 w1))"

record store_result =
  res_symbol :: string
  records_inserted :: nat
  records_updated :: nat
  status :: string

text \<open>The \<open>try\<close> block from \<open>cursor = conn.cursor()\<close> on. The transaction starts with the
  first statement; \<open>conn.commit()\<close> makes its table the committed one.\<close>

definition store_block ::
  "pylib \<Rightarrow> string \<Rightarrow> json \<Rightarrow> world \<Rightarrow> (py_error + store_result) \<times> world" where
  "store_block L smb time_series w =
     db_try DbCursor w (\<lambda>w1.
       case py_items time_series of
         Inl e \<Rightarrow> (Inl e, w1)
       | Inr entries \<Rightarrow>
           (case store_loop L smb (db_clock w1 (db_ops w1)) entries
                   \<lparr>work = stock_prices w1, inserted = 0, updated = 0\<rparr> w1 of
              (Inl e, w2) \<Rightarrow> (Inl e, w2)
            | (Inr b, w2) \<Rightarrow>
                db_try DbCommit w2 (\<lambda>w3.
                db_try DbCursorClose (w3\<lparr>stock_prices := work b\<rparr>) (\<lambda>w4.
                  case conn_close w4 of
                    (Inl e, w5) \<Rightarrow> (Inl e, w5)
                  | (Inr u, w5) \<Rightarrow>
                      (Inr \<lparr>res_symbol = smb, records_inserted = inserted b,
                            records_updated = updated b, status = ''success''\<rparr>, w5)))))"

text \<open>The handler's \<open>conn.rollback(); conn.close()\<close> inside \<open>try: ... except: pass\<close>: an
  exception of the rollback skips the close, and neither exception is raised.\<close>

definition rollback_and_close :: "world \<Rightarrow> world" where
  "rollback_and_close w =
     (case db_call DbRollback w of
        (failed, w1) \<Rightarrow> if failed then w1 else snd (conn_close w1))"

text \<open>\<open>process_and_store_data\<close> after the fetch. An exception raised before \<open>conn\<close> is
  bound finds no connection to roll back; one raised after it runs the handler; both are
  raised again.\<close>

definition process_payload ::
  "pylib \<Rightarrow> string \<Rightarrow> json \<Rightarrow> world \<Rightarrow> (py_error + store_result) \<times> world" where
  "process_payload L smb raw_data w =
     (case py_in time_series_key raw_data of
        Inl e \<Rightarrow> (Inl e, w)
      | Inr False \<Rightarrow> (Inl NoTimeSeries, w)
      | Inr True \<Rightarrow>
          (case py_getitem raw_data time_series_key of
             Inl e \<Rightarrow> (Inl e, w)
           | Inr time_series \<Rightarrow>
               (case get_database_connection w of
                  (Inl e, w1) \<Rightarrow> (Inl e, w1)
                | (Inr u, w1) \<Rightarrow>
                    (case store_block L smb time_series w1 of
                       (Inl e, w2) \<Rightarrow> (Inl e, rollback_and_close w2)
                     | (Inr r, w2) \<Rightarrow> (Inr r, w2)))))"

definition process_and_store_data ::
  "pylib \<Rightarrow> string \<Rightarrow> world \<Rightarrow> (py_error + store_result) \<times> world" where
  "process_and_store_data L smb w =
     (case fetch_stock_data smb w of
        (Inl e, w1) \<Rightarrow> (Inl e, w1)
      | (Inr raw_data, w1) \<Rightarrow> process_payload L smb raw_data w1)"

section \<open>The workflow graph\<close>

definition STOCK_SYMBOLS :: "string list" where
  "STOCK_SYMBOLS = [''AAPL'', ''GOOGL'', ''MSFT'', ''AMZN'', ''TSLA'']"

datatype task =
    CheckEnv
  | LogStart
  | ValidateDb
  | FetchData string
  | ProcessAndStore string
  | LogEnd

text \<open>The tasks in the order the module creates them, and the edges its \<open>>>\<close> declare.\<close>

definition dag_tasks :: "task list" where
  "dag_tasks =
     [CheckEnv, LogStart, ValidateDb]
     @ concat (map (\<lambda>s. [FetchData s, ProcessAndStore s]) STOCK_SYMBOLS)
     @ [LogEnd]"

definition dag_edges :: "(task \<times> task) list" where
  "dag_edges =
     map (\<lambda>s. (FetchData s, ProcessAndStore s)) STOCK_SYMBOLS
     @ [(CheckEnv, LogStart), (LogStart, ValidateDb)]
     @ map (\<lambda>s. (ValidateDb, FetchData s)) STOCK_SYMBOLS
     @ map (\<lambda>s. (ProcessAndStore s, LogEnd)) STOCK_SYMBOLS"

definition upstream :: "task \<Rightarrow> task list" where
  "upstream t = map fst (filter (\<lambda>e. snd e = t) dag_edges)"

text \<open>The callable of each task; its return value is not used.\<close>

definition drop_result :: "(py_error + 'a) \<times> world \<Rightarrow> (py_error + unit) \<times> world" where
  "drop_result r = (case r of (Inl e, w) \<Rightarrow> (Inl e, w) | (Inr x, w) \<Rightarrow> (Inr (), w))"

fun run_task :: "pylib \<Rightarrow> task \<Rightarrow> world \<Rightarrow> (py_error + unit) \<times> world" where
  "run_task L CheckEnv w = drop_result (check_environment_variables w)"
| "run_task L LogStart w = (Inr (), w)"
| "run_task L ValidateDb w = drop_result (validate_database_connection w)"
| "run_task L (FetchData s) w = drop_result (fetch_stock_data s w)"
| "run_task L (ProcessAndStore s) w = drop_result (process_and_store_data L s w)"
| "run_task L LogEnd w = (Inr (), w)"

text \<open>\<open>'retries': 2\<close> in \<open>default_args\<close>.\<close>

definition retries :: nat where
  "retries = 2"

datatype task_state = Success | Failed | UpstreamFailed

text \<open>
  The orchestrator that runs the graph (Airflow) is an external collaborator, not code of
  the repository. Its launch rule is taken as the spec describes it: a task is launched only
  after every task upstream of it has reported success, a raised error is a task failure,
  and a failed task is run again up to the retry count. The tasks are taken in the order of
  \<open>dag_tasks\<close>, which respects every edge.
\<close>

fun run_attempts :: "pylib \<Rightarrow> nat \<Rightarrow> task \<Rightarrow> world \<Rightarrow> bool \<times> world" where
  "run_attempts L 0 t w =
     (case run_task L t w of (Inl e, w1) \<Rightarrow> (False, w1) | (Inr u, w1) \<Rightarrow> (True, w1))"
| "run_attempts L (Suc n) t w =
     (case run_task L t w of (Inl e, w1) \<Rightarrow> run_attempts L n t w1 | (Inr u, w1) \<Rightarrow> (True, w1))"

fun run_tasks ::
  "pylib \<Rightarrow> task list \<Rightarrow> (task \<times> task_state) list \<Rightarrow> world
     \<Rightarrow> (task \<times> task_state) list \<times> world" where
  "run_tasks L [] finished w = (finished, w)"
| "run_tasks L (t # ts) finished w =
     (if list_all (\<lambda>u. map_of finished u = Some Success) (upstream t)
      then (case run_attempts L retries t w of
              (ok, w1) \<Rightarrow> run_tasks L ts (finished @ [(t, if ok then Success else Failed)]) w1)
      else run_tasks L ts (finished @ [(t, UpstreamFailed)]) w)"

definition run_dag :: "pylib \<Rightarrow> world \<Rightarrow> (task \<times> task_state) list \<times> world" where
  "run_dag L w = run_tasks L dag_tasks [] w"

section \<open>Predicates used in the statements\<close>

definition is_str :: "json \<Rightarrow> bool" where
  "is_str v = (case v of JStr s \<Rightarrow> True | _ \<Rightarrow> False)"

text \<open>The shape of a payload: under the time-series key a mapping whose values are
  mappings with the five labelled fields, in order, each a string.\<close>

definition entry_shape :: "json \<Rightarrow> bool" where
  "entry_shape v =
     (case v of
        JObj kvs \<Rightarrow>
          map fst kvs = [''1. open'', ''2. high'', ''3. low'', ''4. close'', ''5. volume'']
          \<and> list_all is_str (map snd kvs)
      | _ \<Rightarrow> False)"

definition payload_shape :: "json \<Rightarrow> bool" where
  "payload_shape p =
     (case py_getitem p time_series_key of
        Inr (JObj series) \<Rightarrow> list_all entry_shape (map snd series)
      | _ \<Rightarrow> False)"

text \<open>Two worlds that differ at most in how many clock readings and random draws were
  taken: same environment, same network and database, same trace.\<close>

definition same_outside :: "world \<Rightarrow> world \<Rightarrow> bool" where
  "same_outside w w' =
     (env w' = env w \<and> net w' = net w \<and> net_calls w' = net_calls w
      \<and> db_fault w' = db_fault w \<and> db_ops w' = db_ops w \<and> db_clock w' = db_clock w
      \<and> created_at_default w' = created_at_default w \<and> has_table w' = has_table w
      \<and> stock_prices w' = stock_prices w \<and> open_conns w' = open_conns w
      \<and> trace w' = trace w \<and> clock w' = clock w \<and> rnd w' = rnd w \<and> rbelow w' = rbelow w)"

text \<open>The result \<open>return _get_demo_data(symbol)\<close> gives in a world.\<close>

definition demo_result :: "string \<Rightarrow> world \<Rightarrow> (py_error + json) \<times> world" where
  "demo_result smb w = (Inr (fst (get_demo_data smb w)), snd (get_demo_data smb w))"

text \<open>A response body that passes the three checks of \<open>fetch_stock_data\<close>.\<close>

definition live_ok :: "json \<Rightarrow> bool" where
  "live_ok data =
     (py_in ''Error Message'' data = Inr False \<and> py_in ''Note'' data = Inr False
      \<and> py_in time_series_key data = Inr True)"

text \<open>The exceptions that parsing one entry can raise.\<close>

definition parse_error :: "py_error \<Rightarrow> bool" where
  "parse_error e = (e = ValueError \<or> e = KeyError \<or> e = TypeError \<or> e = OverflowError)"

text \<open>The conflict key of a parsed quote, and the stored row with a given key.\<close>

definition quote_key :: "quote \<Rightarrow> string \<times> int" where
  "quote_key q = (symbol q, timestamp q)"

definition find_row :: "string \<times> int \<Rightarrow> row list \<Rightarrow> row option" where
  "find_row k tbl = find (\<lambda>r. row_key r = k) tbl"

text \<open>The world after the database calls \<open>evs\<close>, none of which changed the committed table
  or the number of open connections.\<close>

definition ran :: "event list \<Rightarrow> world \<Rightarrow> world" where
  "ran evs w = w\<lparr>db_ops := db_ops w + length evs, trace := trace w @ evs\<rparr>"

text \<open>\<open>stepped w evs w'\<close>: from \<open>w\<close> the calls \<open>evs\<close> were made, and nothing but the call
  counter, the trace, the committed table and the number of open connections changed.\<close>

definition stepped :: "world \<Rightarrow> event list \<Rightarrow> world \<Rightarrow> bool" where
  "stepped w evs w' =
     (w' = (ran evs w)\<lparr>stock_prices := stock_prices w', open_conns := open_conns w'\<rparr>)"

text \<open>The two calls of one write: \<open>cursor.execute\<close> and \<open>cursor.fetchone\<close>.\<close>

definition is_write :: "event \<Rightarrow> bool" where
  "is_write e = (e = DbExecute \<or> e = DbFetchone)"

text \<open>What one successful write does to the state of the loop, and the quotes that the
  loop writes: those of the entries that parse, in order.\<close>

definition written :: "(int \<Rightarrow> int) \<Rightarrow> int \<Rightarrow> batch \<Rightarrow> quote \<Rightarrow> batch" where
  "written d ts b q =
     (case upsert d ts q (work b) of
        (tbl, ins) \<Rightarrow>
          if ins then b\<lparr>work := tbl, inserted := inserted b + 1\<rparr>
          else b\<lparr>work := tbl, updated := updated b + 1\<rparr>)"

definition parsed_quotes :: "pylib \<Rightarrow> string \<Rightarrow> (string \<times> json) list \<Rightarrow> quote list" where
  "parsed_quotes L smb entries =
     concat (map (\<lambda>e. case parse_entry L smb (fst e) (snd e) of Inr q \<Rightarrow> [q] | Inl x \<Rightarrow> []) entries)"


definition parsed_ok :: "pylib \<Rightarrow> string \<Rightarrow> string \<times> json \<Rightarrow> bool" where
  "parsed_ok L smb e = (case parse_entry L smb (fst e) (snd e) of Inr q \<Rightarrow> True | Inl x \<Rightarrow> False)"


text \<open>The contract of the random generator: \<open>random()\<close> lies in \<open>[0, 1)\<close>, and
  \<open>_randbelow(900001)\<close>, which \<open>randint(100000, 1000000)\<close> calls, lies in \<open>[0, 900001)\<close>.\<close>

definition rand_ok :: "world \<Rightarrow> bool" where
  "rand_ok w =
     ((\<forall>i. 0 \<le> rnd w i \<and> rnd w i < 1)
      \<and> (\<forall>i. 0 \<le> rbelow w i 900001 \<and> rbelow w i 900001 < 900001))"

text \<open>The bounds of a data point before it is printed: open within 5 percent of the base
  price, high at most 2 percent above open, low at most 2 percent below, close between low
  and high, volume between 100000 and 1000000.\<close>

definition point_ok :: "rat \<Rightarrow> point \<Rightarrow> bool" where
  "point_ok base p =
     (95 / 100 * base \<le> p_open p \<and> p_open p \<le> 105 / 100 * base
      \<and> p_open p \<le> p_high p \<and> p_high p \<le> 102 / 100 * p_open p
      \<and> 98 / 100 * p_open p \<le> p_low p \<and> p_low p \<le> p_open p
      \<and> p_low p \<le> p_close p \<and> p_close p \<le> p_high p
      \<and> 100000 \<le> p_volume p \<and> p_volume p \<le> 1000000)"

text \<open>A printed price of an entry, read back in hundredths, and its printed volume.\<close>

definition field_cents :: "json \<Rightarrow> string \<Rightarrow> int option" where
  "field_cents v k = (case py_getitem v k of Inr (JStr s) \<Rightarrow> read2f s | _ \<Rightarrow> None)"

definition field_nat :: "json \<Rightarrow> string \<Rightarrow> nat option" where
  "field_nat v k = (case py_getitem v k of Inr (JStr s) \<Rightarrow> read_nat s | _ \<Rightarrow> None)"

text \<open>The bounds of an entry as printed, in hundredths: low \<open>\<le>\<close> close \<open>\<le>\<close> high, low \<open>\<le>\<close> open
  \<open>\<le>\<close> high, open within 5 percent of the base price, high at most 2 percent and 1.01
  hundredths above open, low at most 2 percent and 0.99 hundredths below, and the volume
  in its range.\<close>

definition entry_ok :: "rat \<Rightarrow> json \<Rightarrow> bool" where
  "entry_ok base v =
     (case (field_cents v ''1. open'', field_cents v ''2. high'', field_cents v ''3. low'',
            field_cents v ''4. close'', field_nat v ''5. volume'') of
        (Some opn, Some hi, Some lo, Some cl, Some vol) \<Rightarrow>
          lo \<le> cl \<and> cl \<le> hi \<and> lo \<le> opn \<and> opn \<le> hi
          \<and> 95 * base \<le> of_int opn \<and> of_int opn \<le> 105 * base
          \<and> 100 * hi \<le> 102 * opn + 101 \<and> 98 * opn \<le> 100 * lo + 99
          \<and> 100000 \<le> vol \<and> vol \<le> 1000000
      | _ \<Rightarrow> False)"

text \<open>The time series of a payload, and a printed price of the entry under a timestamp.\<close>

definition series_of :: "json \<Rightarrow> (string \<times> json) list" where
  "series_of p = (case py_getitem p time_series_key of Inr (JObj s) \<Rightarrow> s | _ \<Rightarrow> [])"

definition printed_cents :: "json \<Rightarrow> string \<Rightarrow> string \<Rightarrow> int option" where
  "printed_cents p k f =
     (case py_getitem p time_series_key of
        Inr s \<Rightarrow> (case py_getitem s k of Inr e \<Rightarrow> field_cents e f | Inl x \<Rightarrow> None)
      | Inl x \<Rightarrow> None)"

text \<open>The keys of the time series as the loop of \<open>_get_demo_data\<close> builds them, from the
  clock readings alone.\<close>

definition add_key :: "string list \<Rightarrow> string \<Rightarrow> string list" where
  "add_key ks k = (if k \<in> set ks then ks else ks @ [k])"

fun loop_keys :: "(nat \<Rightarrow> int) \<Rightarrow> nat \<Rightarrow> nat list \<Rightarrow> string list \<Rightarrow> string list" where
  "loop_keys clk n [] ks = ks"
| "loop_keys clk n (i # rest) ks =
     loop_keys clk (Suc n) rest (add_key ks (strftime_hour (clk n - int i * HOUR)))"

section \<open>Concrete inputs\<close>

text \<open>A world with no API key, a healthy and empty database, a clock that stands at
  2024-11-04 00:00:00, and a random generator that always returns the middle of its range;
  and an instance of the library's parsers, given as tables.\<close>

definition example_world :: world where
  "example_world =
     \<lparr>env = (\<lambda>v. None), clock = (\<lambda>n. 1730678400000000), clock_reads = 0,
      rnd = (\<lambda>n. 1 / 2), rnd_draws = 0, rbelow = (\<lambda>n k. k div 2), rbelow_draws = 0,
      net = (\<lambda>n s k. ConnectionFailed), net_calls = 0,
      db_fault = (\<lambda>n. False), db_ops = 0, db_clock = (\<lambda>n. int n),
      created_at_default = (\<lambda>t. t), has_table = True, stock_prices = [],
      open_conns = 0, trace = []\<rparr>"

definition with_key :: "string \<Rightarrow> world \<Rightarrow> world" where
  "with_key k w = w\<lparr>env := (\<lambda>v. if v = ALPHA_VANTAGE_API_KEY then Some k else env w v)\<rparr>"

definition with_response :: "http_result \<Rightarrow> world \<Rightarrow> world" where
  "with_response r w = w\<lparr>net := (\<lambda>n s k. r)\<rparr>"

definition without_table :: "world \<Rightarrow> world" where
  "without_table w = w\<lparr>has_table := False\<rparr>"

definition example_lib :: pylib where
  "example_lib =
     \<lparr>strptime = map_of [(''2024-11-04 00:00:00'', 1730678400000000),
                         (''2024-11-04 01:00:00'', 1730682000000000),
                         (''2024-11-04 02:00:00'', 1730685600000000)],
      float_of_str = map_of [(''150.00'', 150), (''151.50'', 303 / 2), (''148.50'', 297 / 2),
                             (''150.25'', 601 / 4)],
      int_of_str = map_of [(''550000'', 550000)],
      float_of_int = (\<lambda>i. Some (of_int i))\<rparr>"

text \<open>A payload with one well-formed entry, one with a volume that is not a number, one
  with fields missing, and one with a key that is not a timestamp.\<close>

definition fields :: "string \<Rightarrow> string \<Rightarrow> string \<Rightarrow> string \<Rightarrow> string \<Rightarrow> json" where
  "fields a b c d e =
     JObj [(''1. open'', JStr a), (''2. high'', JStr b), (''3. low'', JStr c),
           (''4. close'', JStr d), (''5. volume'', JStr e)]"

definition example_entries :: "(string \<times> json) list" where
  "example_entries =
     [(''2024-11-04 00:00:00'', fields ''150.00'' ''151.50'' ''148.50'' ''150.25'' ''550000''),
      (''2024-11-04 01:00:00'', fields ''150.00'' ''151.50'' ''148.50'' ''150.25'' ''many''),
      (''2024-11-04 02:00:00'', JObj [(''1. open'', JStr ''150.00'')]),
      (''yesterday'', fields ''150.00'' ''151.50'' ''148.50'' ''150.25'' ''550000'')]"

definition example_payload :: json where
  "example_payload = JObj [(''Meta Data'', JObj []), (time_series_key, JObj example_entries)]"

definition example_quote :: quote where
  "example_quote =
     \<lparr>symbol = ''AAPL'', timestamp = 1730678400000000, open_price = 150, high_price = 303 / 2,
      low_price = 297 / 2, close_price = 601 / 4, volume = 550000\<rparr>"

definition example_quote2 :: quote where
  "example_quote2 =
     \<lparr>symbol = ''AAPL'', timestamp = 1730678400000000, open_price = 151, high_price = 152,
      low_price = 149, close_price = 150, volume = 700000\<rparr>"

text \<open>The example world with given driver faults.\<close>

definition with_faults :: "(nat \<Rightarrow> bool) \<Rightarrow> world \<Rightarrow> world" where
  "with_faults f w = w\<lparr>db_fault := f\<rparr>"

text \<open>A world whose clock passes midnight between the first and the second round of the
  loop, and a world whose first two random draws put the open price just below, and the
  high price just above, a half hundredth.\<close>

definition crossing_world :: world where
  "crossing_world =
     example_world\<lparr>clock := (\<lambda>n. if n \<le> 1 then 1730678399999999 else 1730678400000000)\<rparr>"

definition rounding_world :: world where
  "rounding_world = example_world\<lparr>rnd := (\<lambda>n. if n = 0 then 77549 / 150000 else 999 / 1000)\<rparr>"

section \<open>Properties of the guards\<close>

lemma check_env_world: "snd (check_environment_variables w) = w"
  by (simp add: check_environment_variables_def Let_def)

lemma check_env_unset:
  assumes "env w ALPHA_VANTAGE_API_KEY = None"
  shows "check_environment_variables w = (Inl (MissingEnvVars [ALPHA_VANTAGE_API_KEY]), w)"
  using assms
  by (simp add: check_environment_variables_def required_vars_def not_set_def
      ALPHA_VANTAGE_API_KEY_def)

lemma run_attempts_check_env_fails:
  assumes "fst (check_environment_variables w) = Inl e"
  shows "run_attempts L n CheckEnv w = (False, w)"
proof -
  have "run_task L CheckEnv w = (Inl e, w)"
    using assms check_env_world [of w]
    by (cases "check_environment_variables w") (simp add: drop_result_def)
  then show ?thesis by (induction n) simp_all
qed

lemma upstream_simps:
  "upstream CheckEnv = []"
  "upstream LogStart = [CheckEnv]"
  "upstream ValidateDb = [LogStart]"
  "upstream (FetchData s) = (if s \<in> set STOCK_SYMBOLS then [ValidateDb] else [])"
  "upstream (ProcessAndStore s) = (if s \<in> set STOCK_SYMBOLS then [FetchData s] else [])"
  "upstream LogEnd = map ProcessAndStore STOCK_SYMBOLS"
  by (simp_all add: upstream_def dag_edges_def STOCK_SYMBOLS_def)

lemma run_dag_guard_fails:
  assumes "fst (check_environment_variables w) = Inl e"
  shows "run_dag L w = ((CheckEnv, Failed) # map (\<lambda>t. (t, UpstreamFailed)) (tl dag_tasks), w)"
  unfolding run_dag_def dag_tasks_def
  by (simp add: run_attempts_check_env_fails [OF assms] upstream_simps STOCK_SYMBOLS_def)

text \<open>
  Claim C9. When the API-key environment variable is unset, the environment guard raises the
  configuration error (the code's \<open>ValueError\<close>, here \<open>MissingEnvVars\<close>) whose list is
  exactly the required variables that are missing, and it does so without touching the
  world: a run of the graph then ends with the world as it found it, so with no network or
  database call made, the guard task failed and no other task launched. When no required
  variable is missing the guard returns \<open>True\<close>.
\<close>

theorem env_guard_contract:
  "(env w ALPHA_VANTAGE_API_KEY = None \<longrightarrow>
      check_environment_variables w = (Inl (MissingEnvVars [ALPHA_VANTAGE_API_KEY]), w)
      \<and> filter (not_set w) required_vars = [ALPHA_VANTAGE_API_KEY]
      \<and> run_dag L w = ((CheckEnv, Failed) # map (\<lambda>t. (t, UpstreamFailed)) (tl dag_tasks), w))
   \<and> (fst (check_environment_variables w) = Inl (MissingEnvVars vs) \<longrightarrow>
        vs = filter (not_set w) required_vars)
   \<and> (filter (not_set w) required_vars = [] \<longrightarrow>
        check_environment_variables w = (Inr True, w))"
proof (intro conjI impI)
  assume unset: "env w ALPHA_VANTAGE_API_KEY = None"
  show "check_environment_variables w = (Inl (MissingEnvVars [ALPHA_VANTAGE_API_KEY]), w)"
    by (rule check_env_unset [OF unset])
  show "filter (not_set w) required_vars = [ALPHA_VANTAGE_API_KEY]"
    using unset by (simp add: required_vars_def not_set_def ALPHA_VANTAGE_API_KEY_def)
  show "run_dag L w = ((CheckEnv, Failed) # map (\<lambda>t. (t, UpstreamFailed)) (tl dag_tasks), w)"
    by (rule run_dag_guard_fails) (simp add: check_env_unset [OF unset])
next
  assume "fst (check_environment_variables w) = Inl (MissingEnvVars vs)"
  then show "vs = filter (not_set w) required_vars"
    by (simp add: check_environment_variables_def Let_def split: if_splits)
next
  assume "filter (not_set w) required_vars = []"
  then show "check_environment_variables w = (Inr True, w)"
    by (simp add: check_environment_variables_def)
qed

theorem env_guard_contract_witness:
  "env example_world ALPHA_VANTAGE_API_KEY = None
   \<and> check_environment_variables example_world
       = (Inl (MissingEnvVars [ALPHA_VANTAGE_API_KEY]), example_world)
   \<and> trace (snd (run_dag example_lib example_world)) = []
   \<and> map_of (fst (run_dag example_lib example_world)) CheckEnv = Some Failed
   \<and> map_of (fst (run_dag example_lib example_world)) ValidateDb = Some UpstreamFailed
   \<and> filter (not_set (with_key ''K1'' example_world)) required_vars = []
   \<and> check_environment_variables (with_key ''K1'' example_world)
       = (Inr True, with_key ''K1'' example_world)"
proof -
  have unset: "env example_world ALPHA_VANTAGE_API_KEY = None"
    by (simp add: example_world_def)
  have tr: "trace example_world = []"
    by (simp add: example_world_def)
  have present: "filter (not_set (with_key ''K1'' example_world)) required_vars = []"
    by (simp add: with_key_def required_vars_def not_set_def ALPHA_VANTAGE_API_KEY_def)
  show ?thesis
    using env_guard_contract [of example_world example_lib "[]"]
      env_guard_contract [of "with_key ''K1'' example_world" example_lib "[]"]
      unset tr present
    by (simp add: dag_tasks_def STOCK_SYMBOLS_def)
qed

text \<open>
  Claim C3. The claim says that the connection guard releases its connection on every
  path. On the path where the connection is established and the table is absent, the code
  raises without calling \<open>conn.close()\<close>: one connection stays open, and the trace ends with
  the \<open>fetchone\<close>. The success path does close (second part), as the handler of
  \<open>process_and_store_data\<close> does on a failure path whose rollback succeeds.
\<close>

theorem validate_leaves_connection_open:
  "validate_database_connection (without_table example_world)
     = (Inl TableNotFound,
        without_table example_world
          \<lparr>db_ops := 4, open_conns := 1,
           trace := [DbConnect, DbCursor, DbExecute, DbFetchone]\<rparr>)
   \<and> fst (validate_database_connection example_world) = Inr True
   \<and> open_conns (snd (validate_database_connection example_world)) = 0"
  by (simp add: validate_database_connection_def get_database_connection_def conn_close_def
      db_try_def db_call_def without_table_def example_world_def)

section \<open>Properties of the data source client\<close>

lemma same_outside_refl: "same_outside w w"
  by (simp add: same_outside_def)

lemma same_outside_trans: "same_outside w w1 \<Longrightarrow> same_outside w1 w2 \<Longrightarrow> same_outside w w2"
  by (simp add: same_outside_def)

lemma now_outside: "same_outside w (snd (now w))"
  by (simp add: same_outside_def now_def)

lemma draw_point_outside: "same_outside w (snd (draw_point b w))"
  by (simp add: same_outside_def draw_point_def uniform_def randint_def Let_def)

lemma demo_step_outside: "same_outside w (snd (demo_step b i s w))"
  using now_outside [of w] draw_point_outside [of "snd (now w)" b]
  by (auto simp: demo_step_def split: prod.splits intro: same_outside_trans)

lemma demo_loop_outside: "same_outside w (snd (demo_loop b is s w))"
proof (induction "is" arbitrary: s w)
  case Nil
  show ?case by (simp add: same_outside_refl)
next
  case (Cons i rest)
  show ?case
    using demo_step_outside [of w b i s] Cons.IH
    by (auto split: prod.splits intro: same_outside_trans)
qed

lemma get_demo_data_outside: "same_outside w (snd (get_demo_data smb w))"
proof -
  obtain t w1 where n: "now w = (t, w1)" by force
  obtain s w2 where l: "demo_loop (base_price smb) [0 ..< 5] [] w1 = (s, w2)" by force
  have a: "same_outside w w1"
    using now_outside [of w] n by simp
  have b: "same_outside w1 w2"
    using demo_loop_outside [of w1 "base_price smb" "[0 ..< 5]" "[]"] l by simp
  show ?thesis
    unfolding get_demo_data_def n l prod.case snd_conv
    by (rule same_outside_trans [OF a b])
qed

lemma demo_has_key: "py_in time_series_key (fst (get_demo_data smb w)) = Inr True"
  by (simp add: get_demo_data_def time_series_key_def split: prod.splits)

lemma fetch_no_key:
  assumes "no_valid_key (env w ALPHA_VANTAGE_API_KEY)"
  shows "fetch_stock_data smb w = (Inr (fst (get_demo_data smb w)), snd (get_demo_data smb w))"
  using assms by (simp add: fetch_stock_data_def split: prod.splits)

lemma check_payload_cases:
  "check_payload data = Inr (Some data) \<and> live_ok data
   \<or> (\<not> live_ok data \<and> (check_payload data = Inr None \<or> (\<exists>e. check_payload data = Inl e)))"
  by (cases data) (auto simp: check_payload_def live_ok_def split: sum.splits bool.splits option.splits)

lemma fetch_with_key:
  assumes "env w ALPHA_VANTAGE_API_KEY = Some k" "\<not> no_valid_key (Some k)"
  shows "fetch_stock_data smb w =
     (case net w (net_calls w) smb k of
        JsonBody data \<Rightarrow> if live_ok data then (Inr data, after_get smb w) else demo_result smb (after_get smb w)
      | _ \<Rightarrow> demo_result smb (after_get smb w))"
proof (cases "net w (net_calls w) smb k")
  case (JsonBody data)
  then show ?thesis
    using assms check_payload_cases [of data]
    by (auto simp: fetch_stock_data_def fetch_try_def http_get_def demo_result_def Let_def
        split: prod.splits)
qed (use assms in \<open>auto simp: fetch_stock_data_def fetch_try_def http_get_def demo_result_def Let_def
        split: prod.splits\<close>)

lemma update_all_values:
  "P v \<Longrightarrow> list_all P (map snd al) \<Longrightarrow> list_all P (map snd (AList.update k v al))"
  by (induction al) auto

lemma print_point_shape: "entry_shape (print_point p)"
  by (simp add: entry_shape_def print_point_def is_str_def)

lemma demo_step_values:
  assumes "\<And>p. P (print_point p)" "list_all P (map snd s)"
  shows "list_all P (map snd (fst (demo_step b i s w)))"
  using assms by (simp add: demo_step_def update_all_values split: prod.splits)

lemma demo_loop_values:
  assumes "\<And>p. P (print_point p)" "list_all P (map snd s)"
  shows "list_all P (map snd (fst (demo_loop b is s w)))"
  using assms(2)
proof (induction "is" arbitrary: s w)
  case Nil
  then show ?case by simp
next
  case (Cons i rest)
  obtain s1 w1 where st: "demo_step b i s w = (s1, w1)" by force
  have "list_all P (map snd s1)"
    using demo_step_values [of P s b i w, OF assms(1) Cons.prems] st by simp
  then show ?case
    using Cons.IH [of s1 w1] st by simp
qed

lemma demo_payload_shape: "payload_shape (fst (get_demo_data smb w))"
proof -
  obtain t w1 where n: "now w = (t, w1)" by force
  obtain s w2 where l: "demo_loop (base_price smb) [0 ..< 5] [] w1 = (s, w2)" by force
  have "list_all entry_shape (map snd s)"
    using demo_loop_values [of entry_shape "[]" "base_price smb" "[0 ..< 5]" w1] l
    by (simp add: print_point_shape)
  then show ?thesis
    unfolding get_demo_data_def n l prod.case fst_conv
    by (simp add: payload_shape_def time_series_key_def)
qed

lemma fetch_returns_payload:
  "\<exists>p. fst (fetch_stock_data smb w) = Inr p \<and> py_in time_series_key p = Inr True"
proof (cases "no_valid_key (env w ALPHA_VANTAGE_API_KEY)")
  case True
  then show ?thesis by (simp add: fetch_no_key demo_has_key)
next
  case False
  then obtain k where k: "env w ALPHA_VANTAGE_API_KEY = Some k"
    by (cases "env w ALPHA_VANTAGE_API_KEY") (auto simp: no_valid_key_def)
  show ?thesis
    using False k
    by (cases "net w (net_calls w) smb k")
       (auto simp: fetch_with_key [OF k] demo_result_def demo_has_key live_ok_def)
qed

lemma py_float_errors:
  "py_float L v = Inl e \<Longrightarrow> e = ValueError \<or> e = TypeError \<or> e = OverflowError"
  by (cases v) (auto split: option.splits)

lemma py_int_errors:
  "py_int L v = Inl e \<Longrightarrow> e = ValueError \<or> e = TypeError"
  by (cases v) (auto split: option.splits)

lemma py_getitem_errors:
  "py_getitem v k = Inl e \<Longrightarrow> e = KeyError \<or> e = TypeError"
  by (cases v) (auto split: option.splits)

lemma field_float_errors: "field_float L v k = Inl e \<Longrightarrow> parse_error e"
  using py_float_errors py_getitem_errors
  by (fastforce simp: field_float_def parse_error_def split: sum.splits)

lemma field_int_errors: "field_int L v k = Inl e \<Longrightarrow> parse_error e"
  using py_int_errors py_getitem_errors
  by (fastforce simp: field_int_def parse_error_def split: sum.splits)

lemma parse_entry_errors:
  assumes "parse_entry L smb k v = Inl e"
  shows "parse_error e"
proof (cases "strptime L k")
  case None
  then show ?thesis using assms by (simp add: parse_entry_def parse_error_def)
next
  case (Some t)
  note f = field_float_errors [of L v _ e] field_int_errors [of L v _ e]
  show ?thesis
  proof (cases "field_float L v ''1. open''")
    case (Inl a) then show ?thesis using assms Some f by (simp add: parse_entry_def)
  next
    case o: (Inr a)
    show ?thesis
    proof (cases "field_float L v ''2. high''")
      case (Inl a) then show ?thesis using assms Some o f by (simp add: parse_entry_def)
    next
      case h: (Inr a)
      show ?thesis
      proof (cases "field_float L v ''3. low''")
        case (Inl a) then show ?thesis using assms Some o h f by (simp add: parse_entry_def)
      next
        case l: (Inr a)
        show ?thesis
        proof (cases "field_float L v ''4. close''")
          case (Inl a) then show ?thesis using assms Some o h l f by (simp add: parse_entry_def)
        next
          case c: (Inr a)
          show ?thesis
            using assms Some o h l c f
            by (cases "field_int L v ''5. volume''") (simp_all add: parse_entry_def)
        qed
      qed
    qed
  qed
qed

text \<open>
  Claim C2. \<open>fetch_stock_data\<close> never raises: for every symbol and every world it returns a
  payload, and that payload contains the time-series key. With a valid key configured, a
  transport failure, an HTTP error status or a body that is not JSON, an error field, a
  rate-limit note, and a body without the time-series key (or one on which \<open>in\<close> raises)
  each give the synthetic payload generated after the request; the body of the response is
  returned as it is exactly when it passes the three checks, so only when it contains the
  time-series key. The synthetic payload has the shape of a genuine one.
\<close>

theorem fetch_never_raises:
  "(\<exists>p. fst (fetch_stock_data smb w) = Inr p \<and> py_in time_series_key p = Inr True)
   \<and> payload_shape (fst (get_demo_data smb w))
   \<and> (env w ALPHA_VANTAGE_API_KEY = Some k \<and> \<not> no_valid_key (Some k) \<longrightarrow>
        (net w (net_calls w) smb k = ConnectionFailed
           \<or> net w (net_calls w) smb k = HttpStatusError
           \<or> net w (net_calls w) smb k = BadJson \<longrightarrow>
             fetch_stock_data smb w = demo_result smb (after_get smb w))
        \<and> (net w (net_calls w) smb k = JsonBody data \<longrightarrow>
             (py_in ''Error Message'' data = Inr True \<longrightarrow>
                fetch_stock_data smb w = demo_result smb (after_get smb w))
           \<and> (py_in ''Note'' data = Inr True \<longrightarrow>
                fetch_stock_data smb w = demo_result smb (after_get smb w))
           \<and> (py_in time_series_key data \<noteq> Inr True \<longrightarrow>
                fetch_stock_data smb w = demo_result smb (after_get smb w))
           \<and> (live_ok data \<longrightarrow> fetch_stock_data smb w = (Inr data, after_get smb w))
           \<and> (fetch_stock_data smb w = (Inr data, after_get smb w) \<longrightarrow>
                py_in time_series_key data = Inr True)))"
proof (intro conjI impI)
  show "\<exists>p. fst (fetch_stock_data smb w) = Inr p \<and> py_in time_series_key p = Inr True"
    by (rule fetch_returns_payload)
  show "payload_shape (fst (get_demo_data smb w))"
    by (rule demo_payload_shape)
next
  assume "env w ALPHA_VANTAGE_API_KEY = Some k \<and> \<not> no_valid_key (Some k)"
    and "net w (net_calls w) smb k = ConnectionFailed
          \<or> net w (net_calls w) smb k = HttpStatusError
          \<or> net w (net_calls w) smb k = BadJson"
  then show "fetch_stock_data smb w = demo_result smb (after_get smb w)"
    by (auto simp: fetch_with_key)
next
  assume "env w ALPHA_VANTAGE_API_KEY = Some k \<and> \<not> no_valid_key (Some k)"
    and "net w (net_calls w) smb k = JsonBody data"
    and "py_in ''Error Message'' data = Inr True"
  then show "fetch_stock_data smb w = demo_result smb (after_get smb w)"
    by (simp add: fetch_with_key live_ok_def)
next
  assume "env w ALPHA_VANTAGE_API_KEY = Some k \<and> \<not> no_valid_key (Some k)"
    and "net w (net_calls w) smb k = JsonBody data"
    and "py_in ''Note'' data = Inr True"
  then show "fetch_stock_data smb w = demo_result smb (after_get smb w)"
    by (simp add: fetch_with_key live_ok_def)
next
  assume "env w ALPHA_VANTAGE_API_KEY = Some k \<and> \<not> no_valid_key (Some k)"
    and "net w (net_calls w) smb k = JsonBody data"
    and "py_in time_series_key data \<noteq> Inr True"
  then show "fetch_stock_data smb w = demo_result smb (after_get smb w)"
    by (simp add: fetch_with_key live_ok_def)
next
  assume "env w ALPHA_VANTAGE_API_KEY = Some k \<and> \<not> no_valid_key (Some k)"
    and "net w (net_calls w) smb k = JsonBody data"
    and "live_ok data"
  then show "fetch_stock_data smb w = (Inr data, after_get smb w)"
    by (simp add: fetch_with_key)
next
  assume "env w ALPHA_VANTAGE_API_KEY = Some k \<and> \<not> no_valid_key (Some k)"
    and "net w (net_calls w) smb k = JsonBody data"
    and "fetch_stock_data smb w = (Inr data, after_get smb w)"
  then show "py_in time_series_key data = Inr True"
    using demo_has_key [of smb "after_get smb w"]
    by (cases "live_ok data") (auto simp: fetch_with_key live_ok_def demo_result_def)
qed

theorem fetch_never_raises_witness:
  "env (with_key ''K1'' example_world) ALPHA_VANTAGE_API_KEY = Some ''K1''
   \<and> fetch_stock_data ''AAPL'' (with_key ''K1'' example_world)
       = demo_result ''AAPL'' (after_get ''AAPL'' (with_key ''K1'' example_world))
   \<and> fetch_stock_data ''AAPL''
        (with_response (JsonBody (JObj [(''Error Message'', JStr ''Invalid API call'')]))
           (with_key ''K1'' example_world))
       = demo_result ''AAPL'' (after_get ''AAPL''
           (with_response (JsonBody (JObj [(''Error Message'', JStr ''Invalid API call'')]))
              (with_key ''K1'' example_world)))
   \<and> fetch_stock_data ''AAPL''
        (with_response (JsonBody (JObj [(''Note'', JStr ''rate limit'')]))
           (with_key ''K1'' example_world))
       = demo_result ''AAPL'' (after_get ''AAPL''
           (with_response (JsonBody (JObj [(''Note'', JStr ''rate limit'')]))
              (with_key ''K1'' example_world)))
   \<and> fetch_stock_data ''AAPL''
        (with_response (JsonBody (JInt 7)) (with_key ''K1'' example_world))
       = demo_result ''AAPL'' (after_get ''AAPL''
           (with_response (JsonBody (JInt 7)) (with_key ''K1'' example_world)))
   \<and> fetch_stock_data ''AAPL''
        (with_response (JsonBody (JObj [(time_series_key, JObj [])]))
           (with_key ''K1'' example_world))
       = (Inr (JObj [(time_series_key, JObj [])]),
          after_get ''AAPL''
            (with_response (JsonBody (JObj [(time_series_key, JObj [])]))
               (with_key ''K1'' example_world)))"
proof -
  let ?w = "with_key ''K1'' example_world"
  have key: "\<And>r. env (with_response r ?w) ALPHA_VANTAGE_API_KEY = Some ''K1''"
    "env ?w ALPHA_VANTAGE_API_KEY = Some ''K1''"
    by (simp_all add: with_response_def with_key_def)
  have valid: "\<not> no_valid_key (Some ''K1'')"
    by (simp add: no_valid_key_def)
  have resp: "\<And>r s k. net (with_response r ?w) (net_calls (with_response r ?w)) s k = r"
    by (simp add: with_response_def)
  have fail: "net ?w (net_calls ?w) ''AAPL'' ''K1'' = ConnectionFailed"
    by (simp add: with_key_def example_world_def)
  have ok: "live_ok (JObj [(time_series_key, JObj [])])"
    by (simp add: live_ok_def time_series_key_def)
  show ?thesis
    using fetch_never_raises [of "''AAPL''" ?w "''K1''" JNull]
      fetch_never_raises [of "''AAPL''"
        "with_response (JsonBody (JObj [(''Error Message'', JStr ''Invalid API call'')])) ?w"
        "''K1''" "JObj [(''Error Message'', JStr ''Invalid API call'')]"]
      fetch_never_raises [of "''AAPL''"
        "with_response (JsonBody (JObj [(''Note'', JStr ''rate limit'')])) ?w"
        "''K1''" "JObj [(''Note'', JStr ''rate limit'')]"]
      fetch_never_raises [of "''AAPL''" "with_response (JsonBody (JInt 7)) ?w" "''K1''" "JInt 7"]
      fetch_never_raises [of "''AAPL''"
        "with_response (JsonBody (JObj [(time_series_key, JObj [])])) ?w"
        "''K1''" "JObj [(time_series_key, JObj [])]"]
      key valid resp fail ok
    by simp
qed




text \<open>
  Claim C6, as stated, fails: with the credential absent the first task of the graph, the
  environment guard, fails, and no other task is launched.
\<close>

theorem absent_key_fails_guard_task:
  "no_valid_key (env example_world ALPHA_VANTAGE_API_KEY)
   \<and> map_of (fst (run_dag example_lib example_world)) CheckEnv = Some Failed
   \<and> \<not> list_all (\<lambda>p. snd p \<noteq> Failed) (fst (run_dag example_lib example_world))"
proof -
  have "env example_world ALPHA_VANTAGE_API_KEY = None"
    by (simp add: example_world_def)
  then have "fst (check_environment_variables example_world)
      = Inl (MissingEnvVars [ALPHA_VANTAGE_API_KEY])"
    by (simp add: check_env_unset)
  then show ?thesis
    by (simp add: run_dag_guard_fails example_world_def no_valid_key_def)
qed

text \<open>
  Claim C6, amended. In \<open>fetch_stock_data\<close> an absent, empty or placeholder credential
  selects synthetic data at once, with no network call (the trace and the request counter
  are unchanged). At the level of the graph, the placeholder value passes the environment
  guard, so the run goes on in synthetic mode; an absent or empty credential makes the guard
  task fail with the configuration error, and every other task is then not launched.
\<close>

theorem synthetic_mode_and_guard:
  "(no_valid_key (env w ALPHA_VANTAGE_API_KEY) \<longrightarrow>
      fetch_stock_data smb w = demo_result smb w
      \<and> trace (snd (fetch_stock_data smb w)) = trace w
      \<and> net_calls (snd (fetch_stock_data smb w)) = net_calls w)
   \<and> (env w ALPHA_VANTAGE_API_KEY = Some ''your_api_key_here'' \<longrightarrow>
        no_valid_key (env w ALPHA_VANTAGE_API_KEY)
        \<and> check_environment_variables w = (Inr True, w))
   \<and> (not_set w ALPHA_VANTAGE_API_KEY \<longrightarrow>
        no_valid_key (env w ALPHA_VANTAGE_API_KEY)
        \<and> check_environment_variables w = (Inl (MissingEnvVars [ALPHA_VANTAGE_API_KEY]), w)
        \<and> run_dag L w = ((CheckEnv, Failed) # map (\<lambda>t. (t, UpstreamFailed)) (tl dag_tasks), w))"
proof (intro conjI impI)
  assume nk: "no_valid_key (env w ALPHA_VANTAGE_API_KEY)"
  show f: "fetch_stock_data smb w = demo_result smb w"
    using nk by (simp add: fetch_no_key demo_result_def)
  show "trace (snd (fetch_stock_data smb w)) = trace w"
    using get_demo_data_outside [of w smb] by (simp add: f demo_result_def same_outside_def)
  show "net_calls (snd (fetch_stock_data smb w)) = net_calls w"
    using get_demo_data_outside [of w smb] by (simp add: f demo_result_def same_outside_def)
next
  assume ph: "env w ALPHA_VANTAGE_API_KEY = Some ''your_api_key_here''"
  show "no_valid_key (env w ALPHA_VANTAGE_API_KEY)"
    by (simp add: ph no_valid_key_def)
  show "check_environment_variables w = (Inr True, w)"
    using ph
    by (simp add: check_environment_variables_def required_vars_def not_set_def
        ALPHA_VANTAGE_API_KEY_def)
next
  assume ns: "not_set w ALPHA_VANTAGE_API_KEY"
  show "no_valid_key (env w ALPHA_VANTAGE_API_KEY)"
    using ns by (auto simp: not_set_def no_valid_key_def split: option.splits)
  show c: "check_environment_variables w = (Inl (MissingEnvVars [ALPHA_VANTAGE_API_KEY]), w)"
    using ns
    by (simp add: check_environment_variables_def required_vars_def ALPHA_VANTAGE_API_KEY_def)
  show "run_dag L w = ((CheckEnv, Failed) # map (\<lambda>t. (t, UpstreamFailed)) (tl dag_tasks), w)"
    by (rule run_dag_guard_fails) (simp add: c)
qed

theorem synthetic_mode_and_guard_witness:
  "no_valid_key (env example_world ALPHA_VANTAGE_API_KEY)
   \<and> not_set example_world ALPHA_VANTAGE_API_KEY
   \<and> fetch_stock_data ''AAPL'' example_world = demo_result ''AAPL'' example_world
   \<and> trace (snd (fetch_stock_data ''AAPL'' example_world)) = []
   \<and> fst (check_environment_variables example_world)
       = Inl (MissingEnvVars [ALPHA_VANTAGE_API_KEY])
   \<and> env (with_key ''your_api_key_here'' example_world) ALPHA_VANTAGE_API_KEY
       = Some ''your_api_key_here''
   \<and> fst (check_environment_variables (with_key ''your_api_key_here'' example_world))
       = Inr True
   \<and> fetch_stock_data ''AAPL'' (with_key ''your_api_key_here'' example_world)
       = demo_result ''AAPL'' (with_key ''your_api_key_here'' example_world)"
proof -
  let ?p = "with_key ''your_api_key_here'' example_world"
  have a: "no_valid_key (env example_world ALPHA_VANTAGE_API_KEY)"
    "not_set example_world ALPHA_VANTAGE_API_KEY" "trace example_world = []"
    by (simp_all add: example_world_def no_valid_key_def not_set_def)
  have b: "env ?p ALPHA_VANTAGE_API_KEY = Some ''your_api_key_here''"
    by (simp add: with_key_def)
  note absent = synthetic_mode_and_guard [of example_world "''AAPL''" example_lib]
  note placeholder = synthetic_mode_and_guard [of ?p "''AAPL''" example_lib]
  have c: "trace (snd (fetch_stock_data ''AAPL'' example_world)) = []"
    using absent a by metis
  have d: "fst (check_environment_variables example_world)
       = Inl (MissingEnvVars [ALPHA_VANTAGE_API_KEY])"
    using absent a(2) by simp
  have e: "fst (check_environment_variables ?p) = Inr True"
    using placeholder b by simp
  show ?thesis
    using absent placeholder a b c d e by blast
qed

section \<open>Properties of the upsert writer\<close>

lemma db_try_error:
  assumes "db_try ev w k = (Inl e, w')" "\<And>w1 w2. k w1 = (Inl e, w2) \<Longrightarrow> P"  "e = DbError \<Longrightarrow> P"
  shows P
  using assms by (auto simp: db_try_def split: prod.splits if_splits)

lemma write_quote_error: "write_quote ts q b w = (Inl e, w') \<Longrightarrow> e = DbError"
  by (auto simp: write_quote_def db_try_def split: prod.splits if_splits)

lemma store_loop_error:
  "store_loop L smb ts entries b w = (Inl e, w') \<Longrightarrow> parse_error e \<or> e = DbError"
proof (induction entries arbitrary: b w)
  case Nil
  then show ?case by simp
next
  case (Cons kv rest)
  obtain k v where kv: "kv = (k, v)" by (cases kv)
  show ?case
  proof (cases "parse_entry L smb k v")
    case (Inl a)
    then show ?thesis
      using Cons.prems Cons.IH [of b w] parse_entry_errors [OF Inl]
      by (auto simp: kv split: if_splits)
  next
    case (Inr q)
    obtain r w1 where wq: "write_quote ts q b w = (r, w1)" by force
    show ?thesis
    proof (cases r)
      case (Inl a)
      then show ?thesis
        using Cons.prems Inr wq write_quote_error [of ts q b w a w1] by (simp add: kv)
    next
      case b1: (Inr b1)
      then show ?thesis
        using Cons.prems Inr wq Cons.IH [of b1 w1] by (simp add: kv)
    qed
  qed
qed

lemma conn_close_error: "conn_close w = (Inl e, w') \<Longrightarrow> e = DbError"
  by (auto simp: conn_close_def db_call_def split: if_splits)

lemma py_items_error: "py_items v = Inl e \<Longrightarrow> e = AttributeError"
  by (cases v) auto

lemma store_block_error:
  assumes "store_block L smb series w = (Inl e, w')"
  shows "parse_error e \<or> e = DbError \<or> e = AttributeError"
  using assms
  unfolding store_block_def
  by (auto elim!: db_try_error dest!: store_loop_error conn_close_error py_items_error
      split: sum.splits prod.splits)

lemma get_conn_error: "get_database_connection w = (Inl e, w') \<Longrightarrow> e = DbError"
  by (auto simp: get_database_connection_def db_call_def split: if_splits)

lemma process_payload_with_key:
  assumes "py_in time_series_key raw = Inr True"
  shows "fst (process_payload L smb raw w) \<noteq> Inl NoTimeSeries"
proof
  assume a: "fst (process_payload L smb raw w) = Inl NoTimeSeries"
  show False
  proof (cases "py_getitem raw time_series_key")
    case (Inl e)
    then show ?thesis
      using a assms py_getitem_errors [OF Inl] by (auto simp: process_payload_def)
  next
    case (Inr series)
    obtain r w1 where c: "get_database_connection w = (r, w1)" by force
    show ?thesis
    proof (cases r)
      case (Inl e)
      then show ?thesis
        using a assms Inr c get_conn_error [of w e w1] by (simp add: process_payload_def)
    next
      case u: (Inr u)
      obtain r2 w2 where sb: "store_block L smb series w1 = (r2, w2)" by force
      show ?thesis
      proof (cases r2)
        case (Inl e)
        then show ?thesis
          using a assms Inr c u sb store_block_error [of L smb series w1 e w2]
          by (auto simp: process_payload_def parse_error_def)
      next
        case (Inr res)
        then show ?thesis
          using a assms \<open>py_getitem raw time_series_key = Inr series\<close> c u sb
          by (simp add: process_payload_def)
      qed
    qed
  qed
qed

lemma process_never_no_time_series:
  "fst (process_and_store_data L smb w) \<noteq> Inl NoTimeSeries"
proof -
  obtain p where p: "fst (fetch_stock_data smb w) = Inr p" "py_in time_series_key p = Inr True"
    using fetch_returns_payload by blast
  obtain w1 where f: "fetch_stock_data smb w = (Inr p, w1)"
    using p(1) by (cases "fetch_stock_data smb w") simp
  show ?thesis
    using process_payload_with_key [OF p(2), of L smb w1] f
    by (simp add: process_and_store_data_def)
qed

lemma process_payload_missing_key:
  assumes "py_in time_series_key raw = Inr False"
  shows "process_payload L smb raw w = (Inl NoTimeSeries, w)"
  using assms by (simp add: process_payload_def)

text \<open>
  Claim C8. A payload in which the time-series key is missing makes the writer raise the
  data-shape error (the code's \<open>Exception("No time series data found ...")\<close>) and leaves the
  world as it was: no connection is opened and nothing is written. As
  \<open>process_and_store_data\<close> takes its payload from \<open>fetch_stock_data\<close>, whose every result
  contains the key, it never raises that error.
\<close>

theorem missing_series_key:
  "(py_in time_series_key raw = Inr False \<longrightarrow>
      process_payload L smb raw w = (Inl NoTimeSeries, w))
   \<and> (\<exists>p. fst (fetch_stock_data smb w) = Inr p \<and> py_in time_series_key p = Inr True)
   \<and> fst (process_and_store_data L smb w) \<noteq> Inl NoTimeSeries"
  using process_payload_missing_key [of raw L smb w] fetch_returns_payload [of smb w]
    process_never_no_time_series [of L smb w]
  by blast

theorem missing_series_key_witness:
  "py_in time_series_key (JObj [(''Meta Data'', JObj [])]) = Inr False
   \<and> process_payload example_lib ''AAPL'' (JObj [(''Meta Data'', JObj [])]) example_world
       = (Inl NoTimeSeries, example_world)
   \<and> fst (process_and_store_data example_lib ''AAPL'' example_world) \<noteq> Inl NoTimeSeries"
proof -
  have a: "py_in time_series_key (JObj [(''Meta Data'', JObj [])]) = Inr False"
    by (simp add: time_series_key_def)
  show ?thesis
    using missing_series_key [of "JObj [(''Meta Data'', JObj [])]" example_lib "''AAPL''"
        example_world] a
    by simp
qed

subsection \<open>The upsert on the table\<close>

lemma same_key_iff: "same_key q r \<longleftrightarrow> row_key r = quote_key q"
  by (auto simp: same_key_def row_key_def quote_key_def)

lemma row_key_overwrite [simp]: "row_key (overwrite ts q r) = row_key r"
  by (simp add: overwrite_def row_key_def)

lemma row_key_new_row [simp]: "row_key (new_row c q) = quote_key q"
  by (simp add: new_row_def row_key_def quote_key_def)

lemma upsert_present:
  assumes "quote_key q \<in> set (map row_key tbl)"
  shows "upsert d ts q tbl
           = (map (\<lambda>r. if row_key r = quote_key q then overwrite ts q r else r) tbl, False)"
  using assms by (auto simp: upsert_def list_ex_iff same_key_iff)

lemma upsert_absent:
  assumes "quote_key q \<notin> set (map row_key tbl)"
  shows "upsert d ts q tbl = (tbl @ [new_row (d ts) q], True)"
  using assms by (auto simp: upsert_def list_ex_iff same_key_iff image_iff)

lemma upsert_keys:
  "map row_key (fst (upsert d ts q tbl))
     = (if quote_key q \<in> set (map row_key tbl) then map row_key tbl
        else map row_key tbl @ [quote_key q])"
proof (cases "quote_key q \<in> set (map row_key tbl)")
  case True
  have "map row_key (map (\<lambda>r. if row_key r = quote_key q then overwrite ts q r else r) tbl)
          = map row_key tbl"
    by (induction tbl) auto
  then show ?thesis using True by (simp add: upsert_present del: map_map)
next
  case False
  then show ?thesis by (simp add: upsert_absent)
qed

lemma upsert_flag: "snd (upsert d ts q tbl) \<longleftrightarrow> quote_key q \<notin> set (map row_key tbl)"
  by (cases "quote_key q \<in> set (map row_key tbl)") (simp_all add: upsert_present upsert_absent)

lemma upsert_distinct:
  "distinct (map row_key tbl) \<Longrightarrow> distinct (map row_key (fst (upsert d ts q tbl)))"
  by (simp add: upsert_keys)

lemma upsert_has_key: "quote_key q \<in> set (map row_key (fst (upsert d ts q tbl)))"
  by (simp add: upsert_keys)

lemma upsert_length:
  "length (fst (upsert d ts q tbl)) = length tbl + (if snd (upsert d ts q tbl) then 1 else 0)"
  by (cases "quote_key q \<in> set (map row_key tbl)") (simp_all add: upsert_present upsert_absent)

lemma find_row_append:
  "find_row k (xs @ ys) = (case find_row k xs of None \<Rightarrow> find_row k ys | Some r \<Rightarrow> Some r)"
  by (induction xs) (auto simp: find_row_def)

lemma find_row_None: "find_row k tbl = None \<longleftrightarrow> k \<notin> set (map row_key tbl)"
  by (auto simp: find_row_def find_None_iff)

lemma find_row_map_overwrite:
  "find_row k (map (\<lambda>r. if row_key r = k' then overwrite ts q r else r) tbl)
     = (if k = k' then map_option (overwrite ts q) (find_row k tbl) else find_row k tbl)"
  by (induction tbl) (auto simp: find_row_def)

lemma find_row_upsert:
  "find_row k (fst (upsert d ts q tbl))
     = (if k = quote_key q
        then Some (case find_row k tbl of None \<Rightarrow> new_row (d ts) q | Some r \<Rightarrow> overwrite ts q r)
        else find_row k tbl)"
proof (cases "quote_key q \<in> set (map row_key tbl)")
  case True
  then obtain r where "find_row (quote_key q) tbl = Some r"
    using find_row_None [of "quote_key q" tbl] by (cases "find_row (quote_key q) tbl") auto
  then show ?thesis
    using True by (simp add: upsert_present find_row_map_overwrite)
next
  case False
  then have "find_row (quote_key q) tbl = None"
    by (simp add: find_row_None)
  moreover have "find_row k [new_row (d ts) q]
      = (if k = quote_key q then Some (new_row (d ts) q) else None)"
    by (auto simp: find_row_def)
  ultimately show ?thesis
    using False by (auto simp: upsert_absent find_row_append split: option.splits)
qed

lemma count_key_distinct:
  assumes "distinct (map row_key tbl)" "k \<in> set (map row_key tbl)"
  shows "length (filter (\<lambda>r. row_key r = k) tbl) = 1"
  using assms
proof (induction tbl)
  case Nil
  then show ?case by simp
next
  case (Cons r rest)
  show ?case
  proof (cases "row_key r = k")
    case True
    then have "filter (\<lambda>r. row_key r = k) rest = []"
      using Cons.prems(1) by (auto simp: filter_empty_conv image_iff)
    then show ?thesis using True by simp
  next
    case False
    then show ?thesis using Cons by auto
  qed
qed

lemma upsert_one_row:
  assumes "distinct (map row_key tbl)"
  shows "length (filter (same_key q) (fst (upsert d ts q tbl))) = 1"
proof -
  have "filter (same_key q) (fst (upsert d ts q tbl))
      = filter (\<lambda>r. row_key r = quote_key q) (fst (upsert d ts q tbl))"
    by (rule filter_cong) (simp_all add: same_key_iff)
  then show ?thesis
    using count_key_distinct [OF upsert_distinct [OF assms] upsert_has_key] by simp
qed

lemma overwrite_fields:
  "open_price (overwrite ts q r) = open_price q"
  "high_price (overwrite ts q r) = high_price q"
  "low_price (overwrite ts q r) = low_price q"
  "close_price (overwrite ts q r) = close_price q"
  "volume (overwrite ts q r) = volume q"
  "created_at (overwrite ts q r) = ts"
  "symbol (overwrite ts q r) = symbol r"
  "timestamp (overwrite ts q r) = timestamp r"
  by (simp_all add: overwrite_def)

lemma list_ex_same_key: "list_ex (same_key q) tbl \<longleftrightarrow> quote_key q \<in> set (map row_key tbl)"
  by (force simp: list_ex_iff same_key_iff image_iff)

subsection \<open>Database calls and the trace\<close>

lemma ran_simps [simp]:
  "env (ran evs w) = env w" "clock (ran evs w) = clock w" "clock_reads (ran evs w) = clock_reads w"
  "rnd (ran evs w) = rnd w" "rnd_draws (ran evs w) = rnd_draws w"
  "rbelow (ran evs w) = rbelow w" "rbelow_draws (ran evs w) = rbelow_draws w"
  "net (ran evs w) = net w" "net_calls (ran evs w) = net_calls w"
  "db_fault (ran evs w) = db_fault w" "db_ops (ran evs w) = db_ops w + length evs"
  "db_clock (ran evs w) = db_clock w" "created_at_default (ran evs w) = created_at_default w"
  "has_table (ran evs w) = has_table w" "stock_prices (ran evs w) = stock_prices w"
  "open_conns (ran evs w) = open_conns w" "trace (ran evs w) = trace w @ evs"
  by (simp_all add: ran_def)

lemma ran_Nil [simp]: "ran [] w = w"
  by (simp add: ran_def)

lemma ran_ran [simp]: "ran e2 (ran e1 w) = ran (e1 @ e2) w"
  by (simp add: ran_def add.assoc)

lemma db_call_ran: "db_call ev w = (db_fault w (db_ops w), ran [ev] w)"
  by (simp add: db_call_def ran_def)

lemma db_try_ran:
  "db_try ev w k = (if db_fault w (db_ops w) then (Inl DbError, ran [ev] w) else k (ran [ev] w))"
  by (simp add: db_try_def db_call_ran)

lemma conn_close_ran:
  "conn_close w =
     (if db_fault w (db_ops w) then (Inl DbError, ran [DbClose] w)
      else (Inr (), (ran [DbClose] w)\<lparr>open_conns := open_conns w - 1\<rparr>))"
  by (simp add: conn_close_def db_call_ran)

lemma get_conn_ran:
  "get_database_connection w =
     (if db_fault w (db_ops w) then (Inl DbError, ran [DbConnect] w)
      else (Inr (), (ran [DbConnect] w)\<lparr>open_conns := Suc (open_conns w)\<rparr>))"
  by (simp add: get_database_connection_def db_call_ran)

lemma rollback_and_close_ran:
  "rollback_and_close w =
     (if db_fault w (db_ops w) then ran [DbRollback] w
      else if db_fault w (Suc (db_ops w)) then ran [DbRollback, DbClose] w
      else (ran [DbRollback, DbClose] w)\<lparr>open_conns := open_conns w - 1\<rparr>)"
  by (simp add: rollback_and_close_def db_call_ran conn_close_ran)

lemma write_quote_ran:
  "write_quote ts q b w =
     (if db_fault w (db_ops w) \<or> \<not> has_table w then (Inl DbError, ran [DbExecute] w)
      else if db_fault w (Suc (db_ops w)) then (Inl DbError, ran [DbExecute, DbFetchone] w)
      else (Inr (written (created_at_default w) ts b q), ran [DbExecute, DbFetchone] w))"
  by (auto simp: write_quote_def db_try_ran written_def split: prod.splits)

lemma is_write_no_rollback: "list_all is_write evs \<Longrightarrow> DbRollback \<notin> set evs \<and> DbCommit \<notin> set evs"
  by (induction evs) (auto simp: is_write_def)

lemma stepped_fields:
  assumes "stepped w evs w'"
  shows "trace w' = trace w @ evs" "db_ops w' = db_ops w + length evs" "db_fault w' = db_fault w"
    "has_table w' = has_table w" "created_at_default w' = created_at_default w"
    "db_clock w' = db_clock w" "env w' = env w"
proof -
  have e: "w' = (ran evs w)\<lparr>stock_prices := stock_prices w', open_conns := open_conns w'\<rparr>"
    using assms by (simp add: stepped_def)
  show "trace w' = trace w @ evs" by (subst e) simp
  show "db_ops w' = db_ops w + length evs" by (subst e) simp
  show "db_fault w' = db_fault w" by (subst e) simp
  show "has_table w' = has_table w" by (subst e) simp
  show "created_at_default w' = created_at_default w" by (subst e) simp
  show "db_clock w' = db_clock w" by (subst e) simp
  show "env w' = env w" by (subst e) simp
qed

lemma stepped_ran: "stepped w evs (ran evs w)"
  by (simp add: stepped_def)

lemma stepped_upd:
  "stepped w evs ((ran evs w)\<lparr>stock_prices := t\<rparr>)"
  "stepped w evs ((ran evs w)\<lparr>open_conns := c\<rparr>)"
  "stepped w evs ((ran evs w)\<lparr>stock_prices := t, open_conns := c\<rparr>)"
  by (simp_all add: stepped_def)

subsection \<open>The loop over the entries\<close>

lemma store_loop_ran:
  "\<exists>evs. snd (store_loop L smb ts entries b w) = ran evs w \<and> list_all is_write evs"
proof (induction entries arbitrary: b w)
  case Nil
  have "snd (store_loop L smb ts [] b w) = ran [] w \<and> list_all is_write []" by simp
  then show ?case by blast
next
  case (Cons kv rest)
  obtain k v where kv: "kv = (k, v)" by (cases kv)
  show ?case
  proof (cases "parse_entry L smb k v")
    case (Inl e)
    show ?thesis
    proof (cases "e = ValueError \<or> e = KeyError")
      case True
      then show ?thesis using Cons.IH [of b w] Inl by (simp add: kv)
    next
      case False
      then have "snd (store_loop L smb ts (kv # rest) b w) = ran [] w \<and> list_all is_write []"
        using Inl by (simp add: kv)
      then show ?thesis by blast
    qed
  next
    case (Inr q)
    let ?b1 = "written (created_at_default w) ts b q"
    let ?w1 = "ran [DbExecute, DbFetchone] w"
    consider (a) "db_fault w (db_ops w) \<or> \<not> has_table w"
      | (b) "\<not> (db_fault w (db_ops w) \<or> \<not> has_table w)" "db_fault w (Suc (db_ops w))"
      | (c) "\<not> (db_fault w (db_ops w) \<or> \<not> has_table w)" "\<not> db_fault w (Suc (db_ops w))"
      by blast
    then show ?thesis
    proof cases
      case a
      then have "snd (store_loop L smb ts (kv # rest) b w) = ran [DbExecute] w
          \<and> list_all is_write [DbExecute]"
        using Inr by (simp add: kv write_quote_ran is_write_def)
      then show ?thesis by blast
    next
      case b
      then have "snd (store_loop L smb ts (kv # rest) b w) = ran [DbExecute, DbFetchone] w
          \<and> list_all is_write [DbExecute, DbFetchone]"
        using Inr by (simp add: kv write_quote_ran is_write_def)
      then show ?thesis by blast
    next
      case c
      obtain evs where evs: "snd (store_loop L smb ts rest ?b1 ?w1) = ran evs ?w1"
        "list_all is_write evs"
        using Cons.IH [of ?b1 ?w1] by blast
      have "snd (store_loop L smb ts (kv # rest) b w) = ran ([DbExecute, DbFetchone] @ evs) w
          \<and> list_all is_write ([DbExecute, DbFetchone] @ evs)"
        using Inr c evs by (simp add: kv write_quote_ran is_write_def)
      then show ?thesis by blast
    qed
  qed
qed

lemma store_loop_result:
  assumes "store_loop L smb ts entries b w = (Inr b', w')"
  shows "b' = foldl (written (created_at_default w) ts) b (parsed_quotes L smb entries)"
  using assms
proof (induction entries arbitrary: b w)
  case Nil
  then show ?case by (simp add: parsed_quotes_def)
next
  case (Cons kv rest)
  obtain k v where kv: "kv = (k, v)" by (cases kv)
  show ?case
  proof (cases "parse_entry L smb k v")
    case (Inl e)
    then show ?thesis
      using Cons.prems Cons.IH [of b w]
      by (simp add: kv parsed_quotes_def split: if_splits)
  next
    case (Inr q)
    let ?b1 = "written (created_at_default w) ts b q"
    let ?w1 = "ran [DbExecute, DbFetchone] w"
    have ok: "\<not> (db_fault w (db_ops w) \<or> \<not> has_table w)" "\<not> db_fault w (Suc (db_ops w))"
      using Cons.prems Inr by (auto simp: kv write_quote_ran split: if_splits)
    then have "store_loop L smb ts rest ?b1 ?w1 = (Inr b', w')"
      using Cons.prems Inr by (simp add: kv write_quote_ran)
    then have "b' = foldl (written (created_at_default ?w1) ts) ?b1 (parsed_quotes L smb rest)"
      by (rule Cons.IH)
    then show ?thesis
      using Inr by (simp add: kv parsed_quotes_def)
  qed
qed




lemma parsed_quotes_length:
  "length (parsed_quotes L smb entries) = length (filter (parsed_ok L smb) entries)"
  by (induction entries) (auto simp: parsed_quotes_def parsed_ok_def split: sum.splits)



lemma written_work: "work (written d ts b q) = fst (upsert d ts q (work b))"
  by (simp add: written_def split: prod.splits)

lemma written_counts:
  "inserted (written d ts b q) = inserted b + (if snd (upsert d ts q (work b)) then 1 else 0)"
  "updated (written d ts b q) = updated b + (if snd (upsert d ts q (work b)) then 0 else 1)"
  by (simp_all add: written_def split: prod.splits)

lemma fold_written_counts:
  "inserted (foldl (written d ts) b qs) + updated (foldl (written d ts) b qs)
     = inserted b + updated b + length qs"
  by (induction qs arbitrary: b) (simp_all add: written_counts)

lemma fold_written_length:
  "inserted b \<le> inserted (foldl (written d ts) b qs)
   \<and> length (work (foldl (written d ts) b qs))
       = length (work b) + (inserted (foldl (written d ts) b qs) - inserted b)"
proof (induction qs arbitrary: b)
  case Nil
  show ?case by simp
next
  case (Cons q qs)
  show ?case
    using Cons.IH [of "written d ts b q"]
    by (auto simp: written_work written_counts upsert_length)
qed

lemma fold_written_distinct:
  "distinct (map row_key (work b)) \<Longrightarrow> distinct (map row_key (work (foldl (written d ts) b qs)))"
  by (induction qs arbitrary: b) (simp_all add: written_work upsert_distinct)

lemma fold_written_keys:
  "set (map row_key (work (foldl (written d ts) b qs)))
     = set (map row_key (work b)) \<union> quote_key ` set qs"
proof (induction qs arbitrary: b)
  case Nil
  show ?case by simp
next
  case (Cons q qs)
  show ?case
    unfolding foldl_Cons Cons.IH written_work upsert_keys by auto
qed


lemma fold_written_present:
  "quote_key ` set qs \<subseteq> set (map row_key (work b)) \<Longrightarrow>
     inserted (foldl (written d ts) b qs) = inserted b
     \<and> updated (foldl (written d ts) b qs) = updated b + length qs
     \<and> length (work (foldl (written d ts) b qs)) = length (work b)"
proof (induction qs arbitrary: b)
  case Nil
  show ?case by simp
next
  case (Cons q qs)
  have present: "quote_key q \<in> set (map row_key (work b))"
    using Cons.prems by auto
  have flag: "\<not> snd (upsert d ts q (work b))"
    using present by (simp add: upsert_flag)
  have keys: "map row_key (work (written d ts b q)) = map row_key (work b)"
    using present by (simp add: written_work upsert_keys)
  have "quote_key ` set qs \<subseteq> set (map row_key (work (written d ts b q)))"
    using Cons.prems unfolding keys by auto
  then show ?case
    using Cons.IH [of "written d ts b q"] flag map_eq_imp_length_eq [OF keys]
    by (simp add: written_counts)
qed

subsection \<open>The transaction\<close>

lemma store_block_obj:
  "store_block L smb (JObj entries) w =
     (if db_fault w (db_ops w) then (Inl DbError, ran [DbCursor] w)
      else
        (case store_loop L smb (db_clock w (Suc (db_ops w))) entries
                \<lparr>work = stock_prices w, inserted = 0, updated = 0\<rparr> (ran [DbCursor] w) of
           (Inl e, w2) \<Rightarrow> (Inl e, w2)
         | (Inr b, w2) \<Rightarrow>
             if db_fault w2 (db_ops w2) then (Inl DbError, ran [DbCommit] w2)
             else if db_fault w2 (Suc (db_ops w2))
               then (Inl DbError, (ran [DbCommit, DbCursorClose] w2)\<lparr>stock_prices := work b\<rparr>)
             else if db_fault w2 (Suc (Suc (db_ops w2)))
               then (Inl DbError,
                     (ran [DbCommit, DbCursorClose, DbClose] w2)\<lparr>stock_prices := work b\<rparr>)
             else (Inr \<lparr>res_symbol = smb, records_inserted = inserted b,
                        records_updated = updated b, status = ''success''\<rparr>,
                   (ran [DbCommit, DbCursorClose, DbClose] w2)
                     \<lparr>stock_prices := work b, open_conns := open_conns w2 - 1\<rparr>)))"
  by (auto simp: store_block_def db_try_ran conn_close_ran ran_def split: sum.splits prod.splits)

lemma store_block_not_obj:
  assumes "py_items series = Inl e"
  shows "store_block L smb series w =
     (if db_fault w (db_ops w) then (Inl DbError, ran [DbCursor] w) else (Inl e, ran [DbCursor] w))"
  using assms by (simp add: store_block_def db_try_ran)

lemma store_block_failure:
  assumes "store_block L smb series w = (Inl e, w')"
  shows "\<exists>evs. evs \<noteq> [] \<and> DbRollback \<notin> set evs \<and> stepped w evs w'
           \<and> open_conns w' = open_conns w
           \<and> (DbCommit \<notin> set evs \<or> last evs = DbCommit \<longrightarrow> stock_prices w' = stock_prices w)"
proof (cases "py_items series")
  case (Inl x)
  then have "w' = ran [DbCursor] w"
    using assms by (auto simp: store_block_not_obj split: if_splits)
  then have "[DbCursor] \<noteq> [] \<and> DbRollback \<notin> set [DbCursor] \<and> stepped w [DbCursor] w'
           \<and> open_conns w' = open_conns w
           \<and> (DbCommit \<notin> set [DbCursor] \<or> last [DbCursor] = DbCommit
                \<longrightarrow> stock_prices w' = stock_prices w)"
    by (simp add: stepped_ran)
  then show ?thesis by blast
next
  case (Inr entries)
  then have series: "series = JObj entries" by (cases series) auto
  let ?w1 = "ran [DbCursor] w"
  let ?b0 = "\<lparr>work = stock_prices w, inserted = 0, updated = 0\<rparr>"
  let ?ts = "db_clock w (Suc (db_ops w))"
  show ?thesis
  proof (cases "db_fault w (db_ops w)")
    case True
    then have "w' = ran [DbCursor] w"
      using assms by (simp add: series store_block_obj)
    then have "[DbCursor] \<noteq> [] \<and> DbRollback \<notin> set [DbCursor] \<and> stepped w [DbCursor] w'
           \<and> open_conns w' = open_conns w
           \<and> (DbCommit \<notin> set [DbCursor] \<or> last [DbCursor] = DbCommit
                \<longrightarrow> stock_prices w' = stock_prices w)"
      by (simp add: stepped_ran)
    then show ?thesis by blast
  next
    case False
    obtain res w2 where loop: "store_loop L smb ?ts entries ?b0 ?w1 = (res, w2)" by force
    obtain ws where ws: "w2 = ran ws ?w1" "list_all is_write ws"
      using store_loop_ran [of L smb ?ts entries ?b0 ?w1] loop by auto
    have w2: "w2 = ran (DbCursor # ws) w" using ws(1) by simp
    note nr = is_write_no_rollback [OF ws(2)]
    show ?thesis
    proof (cases res)
      case (Inl x)
      then have "w' = ran (DbCursor # ws) w"
        using assms False loop w2 by (simp add: series store_block_obj)
      then have "DbCursor # ws \<noteq> [] \<and> DbRollback \<notin> set (DbCursor # ws)
           \<and> stepped w (DbCursor # ws) w' \<and> open_conns w' = open_conns w
           \<and> (DbCommit \<notin> set (DbCursor # ws) \<or> last (DbCursor # ws) = DbCommit
                \<longrightarrow> stock_prices w' = stock_prices w)"
        using nr by (simp add: stepped_ran)
      then show ?thesis by blast
    next
      case b: (Inr b)
      let ?n = "db_ops w2"
      consider (commit) "db_fault w2 ?n"
        | (cclose) "\<not> db_fault w2 ?n" "db_fault w2 (Suc ?n)"
        | (close) "\<not> db_fault w2 ?n" "\<not> db_fault w2 (Suc ?n)" "db_fault w2 (Suc (Suc ?n))"
        | (ok) "\<not> db_fault w2 ?n" "\<not> db_fault w2 (Suc ?n)" "\<not> db_fault w2 (Suc (Suc ?n))"
        by blast
      then show ?thesis
      proof cases
        case commit
        let ?evs = "DbCursor # ws @ [DbCommit]"
        have "w' = ran ?evs w"
          using assms False loop b commit by (simp add: series store_block_obj w2)
        then have "?evs \<noteq> [] \<and> DbRollback \<notin> set ?evs \<and> stepped w ?evs w'
           \<and> open_conns w' = open_conns w
           \<and> (DbCommit \<notin> set ?evs \<or> last ?evs = DbCommit \<longrightarrow> stock_prices w' = stock_prices w)"
          using nr by (simp add: stepped_ran)
        then show ?thesis by blast
      next
        case cclose
        let ?evs = "DbCursor # ws @ [DbCommit, DbCursorClose]"
        have "w' = (ran ?evs w)\<lparr>stock_prices := work b\<rparr>"
          using assms False loop b cclose by (simp add: series store_block_obj w2)
        then have "?evs \<noteq> [] \<and> DbRollback \<notin> set ?evs \<and> stepped w ?evs w'
           \<and> open_conns w' = open_conns w
           \<and> (DbCommit \<notin> set ?evs \<or> last ?evs = DbCommit \<longrightarrow> stock_prices w' = stock_prices w)"
          using nr by (simp add: stepped_upd)
        then show ?thesis by blast
      next
        case close
        let ?evs = "DbCursor # ws @ [DbCommit, DbCursorClose, DbClose]"
        have "w' = (ran ?evs w)\<lparr>stock_prices := work b\<rparr>"
          using assms False loop b close by (simp add: series store_block_obj w2)
        then have "?evs \<noteq> [] \<and> DbRollback \<notin> set ?evs \<and> stepped w ?evs w'
           \<and> open_conns w' = open_conns w
           \<and> (DbCommit \<notin> set ?evs \<or> last ?evs = DbCommit \<longrightarrow> stock_prices w' = stock_prices w)"
          using nr by (simp add: stepped_upd)
        then show ?thesis by blast
      next
        case ok
        then have False
          using assms False loop b by (simp add: series store_block_obj)
        then show ?thesis ..
      qed
    qed
  qed
qed

lemma store_block_success:
  assumes "store_block L smb series w = (Inr r, w')"
  shows "\<exists>entries ws b.
           series = JObj entries \<and> list_all is_write ws
           \<and> fst (store_loop L smb (db_clock w (Suc (db_ops w))) entries
                  \<lparr>work = stock_prices w, inserted = 0, updated = 0\<rparr> (ran [DbCursor] w)) = Inr b
           \<and> w' = (ran (DbCursor # ws @ [DbCommit, DbCursorClose, DbClose]) w)
                    \<lparr>stock_prices := work b, open_conns := open_conns w - 1\<rparr>
           \<and> r = \<lparr>res_symbol = smb, records_inserted = inserted b,
                   records_updated = updated b, status = ''success''\<rparr>"
proof (cases "py_items series")
  case (Inl x)
  then show ?thesis
    using assms by (auto simp: store_block_not_obj split: if_splits)
next
  case (Inr entries)
  then have series: "series = JObj entries" by (cases series) auto
  let ?w1 = "ran [DbCursor] w"
  let ?b0 = "\<lparr>work = stock_prices w, inserted = 0, updated = 0\<rparr>"
  let ?ts = "db_clock w (Suc (db_ops w))"
  have nf: "\<not> db_fault w (db_ops w)"
    using assms by (auto simp: series store_block_obj split: if_splits)
  obtain res w2 where loop: "store_loop L smb ?ts entries ?b0 ?w1 = (res, w2)" by force
  obtain ws where ws: "w2 = ran ws ?w1" "list_all is_write ws"
    using store_loop_ran [of L smb ?ts entries ?b0 ?w1] loop by auto
  have w2: "w2 = ran (DbCursor # ws) w" using ws(1) by simp
  obtain b where b: "res = Inr b"
    using assms nf loop by (cases res) (auto simp: series store_block_obj)
  have "w' = (ran (DbCursor # ws @ [DbCommit, DbCursorClose, DbClose]) w)
                    \<lparr>stock_prices := work b, open_conns := open_conns w - 1\<rparr>
        \<and> r = \<lparr>res_symbol = smb, records_inserted = inserted b,
                   records_updated = updated b, status = ''success''\<rparr>"
    using assms nf loop b
    by (auto simp: series store_block_obj w2 split: if_splits)
  then show ?thesis
    using series ws(2) loop b by auto
qed

lemma getitem_in: "py_getitem raw k = Inr v \<Longrightarrow> py_in k raw = Inr True"
  by (cases raw) (auto split: option.splits)

lemma process_payload_reached:
  assumes "py_getitem raw time_series_key = Inr series" "\<not> db_fault w (db_ops w)"
  shows "process_payload L smb raw w =
     (case store_block L smb series ((ran [DbConnect] w)\<lparr>open_conns := Suc (open_conns w)\<rparr>) of
        (Inl e, w2) \<Rightarrow> (Inl e, rollback_and_close w2)
      | (Inr r, w2) \<Rightarrow> (Inr r, w2))"
  using assms getitem_in [OF assms(1)]
  by (simp add: process_payload_def get_conn_ran)

lemma process_payload_success:
  assumes "process_payload L smb raw w = (Inr r, w')"
  shows "\<exists>entries ws B.
           py_getitem raw time_series_key = Inr (JObj entries)
           \<and> list_all is_write ws
           \<and> B = foldl (written (created_at_default w) (db_clock w (db_ops w + 2)))
                   \<lparr>work = stock_prices w, inserted = 0, updated = 0\<rparr> (parsed_quotes L smb entries)
           \<and> trace w' = trace w @ [DbConnect, DbCursor] @ ws @ [DbCommit, DbCursorClose, DbClose]
           \<and> stock_prices w' = work B \<and> open_conns w' = open_conns w
           \<and> r = \<lparr>res_symbol = smb, records_inserted = inserted B,
                   records_updated = updated B, status = ''success''\<rparr>"
proof -
  have "py_in time_series_key raw = Inr True"
    using assms by (auto simp: process_payload_def split: sum.splits bool.splits)
  then obtain series where series: "py_getitem raw time_series_key = Inr series"
    using assms by (cases "py_getitem raw time_series_key") (auto simp: process_payload_def)
  have nf: "\<not> db_fault w (db_ops w)"
    using assms series \<open>py_in time_series_key raw = Inr True\<close>
    by (auto simp: process_payload_def get_conn_ran split: if_splits)
  let ?w1 = "(ran [DbConnect] w)\<lparr>open_conns := Suc (open_conns w)\<rparr>"
  have sb: "store_block L smb series ?w1 = (Inr r, w')"
    using assms process_payload_reached [OF series nf, of L smb]
    by (auto split: sum.splits prod.splits)
  obtain entries ws b where x:
    "series = JObj entries" "list_all is_write ws"
    "fst (store_loop L smb (db_clock ?w1 (Suc (db_ops ?w1))) entries
                  \<lparr>work = stock_prices ?w1, inserted = 0, updated = 0\<rparr> (ran [DbCursor] ?w1)) = Inr b"
    "w' = (ran (DbCursor # ws @ [DbCommit, DbCursorClose, DbClose]) ?w1)
                    \<lparr>stock_prices := work b, open_conns := open_conns ?w1 - 1\<rparr>"
    "r = \<lparr>res_symbol = smb, records_inserted = inserted b,
                   records_updated = updated b, status = ''success''\<rparr>"
    using store_block_success [OF sb] by blast
  have b: "b = foldl (written (created_at_default w) (db_clock w (db_ops w + 2)))
                   \<lparr>work = stock_prices w, inserted = 0, updated = 0\<rparr> (parsed_quotes L smb entries)"
    using store_loop_result [of L smb _ entries _ "ran [DbCursor] ?w1" b
        "snd (store_loop L smb (db_clock ?w1 (Suc (db_ops ?w1))) entries
                  \<lparr>work = stock_prices ?w1, inserted = 0, updated = 0\<rparr> (ran [DbCursor] ?w1))"]
      x(3)
    by (simp add: prod_eq_iff)
  have "trace w' = trace w @ [DbConnect, DbCursor] @ ws @ [DbCommit, DbCursorClose, DbClose]"
    "stock_prices w' = work b" "open_conns w' = open_conns w"
    by (simp_all add: x(4))
  then show ?thesis
    using series x(1,2,5) b by blast
qed


lemma process_payload_failure:
  assumes series: "py_getitem raw time_series_key = Inr series"
    and nf: "\<not> db_fault w (db_ops w)"
    and fails: "process_payload L smb raw w = (Inl e, w')"
  shows "\<exists>evs. DbRollback \<notin> set evs
           \<and> (\<not> db_fault w (Suc (db_ops w + length evs))
                \<and> trace w' = trace w @ DbConnect # evs @ [DbRollback, DbClose]
                \<and> (\<not> db_fault w (Suc (Suc (db_ops w + length evs))) \<longrightarrow>
                      open_conns w' = open_conns w)
              \<or> db_fault w (Suc (db_ops w + length evs))
                \<and> trace w' = trace w @ DbConnect # evs @ [DbRollback]
                \<and> open_conns w' = Suc (open_conns w))
           \<and> (DbCommit \<notin> set evs \<or> last evs = DbCommit \<longrightarrow> stock_prices w' = stock_prices w)"
proof -
  let ?w1 = "(ran [DbConnect] w)\<lparr>open_conns := Suc (open_conns w)\<rparr>"
  obtain res w2 where sb: "store_block L smb series ?w1 = (res, w2)" by force
  have res: "res = Inl e" and w': "w' = rollback_and_close w2"
    using fails process_payload_reached [OF series nf, of L smb] sb
    by (auto split: sum.splits)
  obtain evs where evs: "evs \<noteq> []" "DbRollback \<notin> set evs" "stepped ?w1 evs w2"
    "open_conns w2 = open_conns ?w1"
    "DbCommit \<notin> set evs \<or> last evs = DbCommit \<longrightarrow> stock_prices w2 = stock_prices ?w1"
    using store_block_failure [of L smb series ?w1 e w2] sb res by blast
  note f = stepped_fields [OF evs(3)]
  have tr: "trace w2 = trace w @ DbConnect # evs" using f(1) by simp
  have ops: "db_ops w2 = Suc (db_ops w + length evs)" using f(2) by simp
  have fl: "db_fault w2 = db_fault w" using f(3) by simp
  have oc: "open_conns w2 = Suc (open_conns w)" using evs(4) by simp
  have sp: "DbCommit \<notin> set evs \<or> last evs = DbCommit \<longrightarrow> stock_prices w' = stock_prices w"
    using evs(5) by (simp add: w' rollback_and_close_ran)
  have "\<not> db_fault w (Suc (db_ops w + length evs))
                \<and> trace w' = trace w @ DbConnect # evs @ [DbRollback, DbClose]
                \<and> (\<not> db_fault w (Suc (Suc (db_ops w + length evs))) \<longrightarrow>
                      open_conns w' = open_conns w)
              \<or> db_fault w (Suc (db_ops w + length evs))
                \<and> trace w' = trace w @ DbConnect # evs @ [DbRollback]
                \<and> open_conns w' = Suc (open_conns w)"
    using tr ops fl oc by (simp add: w' rollback_and_close_ran)
  then show ?thesis using evs(2) sp by blast
qed

lemma process_payload_twice:
  assumes "process_payload L smb raw w = (Inr r, w')"
    and "process_payload L smb raw w' = (Inr r2, w2)"
  shows "records_inserted r2 = 0
    \<and> records_updated r2 = records_inserted r + records_updated r
    \<and> length (stock_prices w2) = length (stock_prices w')"
proof -
  let ?b0 = "\<lparr>work = stock_prices w, inserted = 0, updated = 0\<rparr>"
  let ?b1 = "\<lparr>work = stock_prices w', inserted = 0, updated = 0\<rparr>"
  obtain entries B where x: "py_getitem raw time_series_key = Inr (JObj entries)"
    "B = foldl (written (created_at_default w) (db_clock w (db_ops w + 2))) ?b0
           (parsed_quotes L smb entries)"
    "stock_prices w' = work B"
    "r = \<lparr>res_symbol = smb, records_inserted = inserted B,
                   records_updated = updated B, status = ''success''\<rparr>"
    using process_payload_success [OF assms(1)] by blast
  obtain entries2 B2 where y: "py_getitem raw time_series_key = Inr (JObj entries2)"
    "B2 = foldl (written (created_at_default w') (db_clock w' (db_ops w' + 2))) ?b1
           (parsed_quotes L smb entries2)"
    "stock_prices w2 = work B2"
    "r2 = \<lparr>res_symbol = smb, records_inserted = inserted B2,
                   records_updated = updated B2, status = ''success''\<rparr>"
    using process_payload_success [OF assms(2)] by blast
  have same: "entries2 = entries" using x(1) y(1) by simp
  have "quote_key ` set (parsed_quotes L smb entries) \<subseteq> set (map row_key (work ?b1))"
    using fold_written_keys [of "created_at_default w" "db_clock w (db_ops w + 2)" ?b0
        "parsed_quotes L smb entries"]
    by (simp add: x(2,3))
  then have "inserted B2 = 0 \<and> updated B2 = length (parsed_quotes L smb entries)
      \<and> length (work B2) = length (stock_prices w')"
    using fold_written_present [of "parsed_quotes L smb entries" ?b1
        "created_at_default w'" "db_clock w' (db_ops w' + 2)"]
    by (simp add: y(2) same)
  moreover have "inserted B + updated B = length (parsed_quotes L smb entries)"
    using fold_written_counts [of "created_at_default w" "db_clock w (db_ops w + 2)" ?b0
        "parsed_quotes L smb entries"]
    by (simp add: x(2))
  ultimately show ?thesis
    by (simp add: x(4) y(3,4))
qed

text \<open>The definitions that evaluate a run on the concrete inputs.\<close>

lemmas run_defs = process_payload_def store_block_def write_quote_def db_try_def db_call_def
  get_database_connection_def conn_close_def rollback_and_close_def parse_entry_def
  field_float_def field_int_def upsert_def new_row_def same_key_def overwrite_def
  example_payload_def example_entries_def fields_def example_lib_def example_world_def with_faults_def
  time_series_key_def

text \<open>
  Claim C1. On a table with at most one row per \<open>(symbol, timestamp)\<close>, the upsert keeps at
  most one row per key and leaves exactly one row with the key written. Written twice, a
  quote with a new key is reported as inserted the first time and as updated the second,
  and one row is added in all; the loop counts the first write in \<open>inserted\<close> and the
  second in \<open>updated\<close>. On a key collision the row keeps its place, takes the four prices
  and the volume of the new quote and the timestamp of the writing transaction as
  \<open>created_at\<close>, and every other row is untouched. A call that returns gives the record
  with the symbol, the two accumulated counters (as many rows added as counted inserted,
  and as many writes counted as entries parsed) and the status \<open>success\<close>; the same call
  repeated on the resulting table inserts nothing and updates as many rows as the first
  call wrote.
\<close>

theorem upsert_contract:
  "distinct (map row_key tbl) \<longrightarrow>
     distinct (map row_key (fst (upsert d ts q tbl)))
     \<and> length (filter (same_key q) (fst (upsert d ts q tbl))) = 1
     \<and> length (filter (same_key q) (fst (upsert d ts2 q (fst (upsert d ts q tbl))))) = 1
     \<and> (\<not> list_ex (same_key q) tbl \<longrightarrow>
          snd (upsert d ts q tbl)
          \<and> \<not> snd (upsert d ts2 q (fst (upsert d ts q tbl)))
          \<and> length (fst (upsert d ts2 q (fst (upsert d ts q tbl)))) = Suc (length tbl))
     \<and> (list_ex (same_key q) tbl \<longrightarrow>
          \<not> snd (upsert d ts q tbl)
          \<and> length (fst (upsert d ts q tbl)) = length tbl
          \<and> (\<exists>x. find_row (quote_key q) (fst (upsert d ts q tbl)) = Some x
                \<and> open_price x = open_price q \<and> high_price x = high_price q
                \<and> low_price x = low_price q \<and> close_price x = close_price q
                \<and> volume x = volume q \<and> created_at x = ts)
          \<and> (\<forall>k. k \<noteq> quote_key q \<longrightarrow>
                find_row k (fst (upsert d ts q tbl)) = find_row k tbl))
     \<and> (work b = tbl \<and> \<not> list_ex (same_key q) tbl
          \<and> write_quote ts q b w = (Inr b1, w1) \<and> write_quote ts2 q b1 w1 = (Inr b2, w2) \<longrightarrow>
          inserted b1 = inserted b + 1 \<and> updated b1 = updated b
          \<and> inserted b2 = inserted b1 \<and> updated b2 = updated b1 + 1
          \<and> length (work b2) = Suc (length tbl))
     \<and> (stock_prices w = tbl \<and> process_payload L smb raw w = (Inr r, w') \<longrightarrow>
          res_symbol r = smb \<and> status r = ''success''
          \<and> distinct (map row_key (stock_prices w'))
          \<and> length (stock_prices w') = length tbl + records_inserted r
          \<and> (\<exists>entries. py_getitem raw time_series_key = Inr (JObj entries)
                \<and> records_inserted r + records_updated r
                    = length (filter (parsed_ok L smb) entries))
          \<and> (process_payload L smb raw w' = (Inr r2, w3) \<longrightarrow>
                records_inserted r2 = 0
                \<and> records_updated r2 = records_inserted r + records_updated r
                \<and> length (stock_prices w3) = length (stock_prices w')))"
proof (intro impI conjI allI)
  assume dist: "distinct (map row_key tbl)"
  let ?t1 = "fst (upsert d ts q tbl)"
  have d1: "distinct (map row_key ?t1)"
    by (rule upsert_distinct [OF dist])
  show "distinct (map row_key ?t1)" by (rule d1)
  show "length (filter (same_key q) ?t1) = 1"
    by (rule upsert_one_row [OF dist])
  show "length (filter (same_key q) (fst (upsert d ts2 q ?t1))) = 1"
    by (rule upsert_one_row [OF d1])
  {
    assume "\<not> list_ex (same_key q) tbl"
    then have absent: "quote_key q \<notin> set (map row_key tbl)"
      by (simp add: list_ex_same_key)
    show "snd (upsert d ts q tbl)"
      using absent by (simp add: upsert_flag)
    show "\<not> snd (upsert d ts2 q ?t1)"
      by (simp add: upsert_flag upsert_keys)
    show "length (fst (upsert d ts2 q ?t1)) = Suc (length tbl)"
      using absent by (simp add: upsert_length upsert_flag upsert_keys)
  }
  {
    assume "list_ex (same_key q) tbl"
    then have present: "quote_key q \<in> set (map row_key tbl)"
      by (simp add: list_ex_same_key)
    show "\<not> snd (upsert d ts q tbl)"
      using present by (simp add: upsert_flag)
    show "length ?t1 = length tbl"
      using present by (simp add: upsert_length upsert_flag)
    obtain x0 where "find_row (quote_key q) tbl = Some x0"
      using present find_row_None [of "quote_key q" tbl]
      by (cases "find_row (quote_key q) tbl") auto
    then show "\<exists>x. find_row (quote_key q) ?t1 = Some x
                \<and> open_price x = open_price q \<and> high_price x = high_price q
                \<and> low_price x = low_price q \<and> close_price x = close_price q
                \<and> volume x = volume q \<and> created_at x = ts"
      by (simp add: find_row_upsert overwrite_fields)
  }
  {
    fix k
    assume "list_ex (same_key q) tbl" "k \<noteq> quote_key q"
    then show "find_row k ?t1 = find_row k tbl"
      by (simp add: find_row_upsert)
  }
  {
    assume a: "work b = tbl \<and> \<not> list_ex (same_key q) tbl
          \<and> write_quote ts q b w = (Inr b1, w1) \<and> write_quote ts2 q b1 w1 = (Inr b2, w2)"
    then have absent: "quote_key q \<notin> set (map row_key (work b))"
      by (simp add: list_ex_same_key)
    have b1: "b1 = written (created_at_default w) ts b q"
      using a by (auto simp: write_quote_ran split: if_splits)
    have b2: "b2 = written (created_at_default w1) ts2 b1 q"
      using a by (auto simp: write_quote_ran split: if_splits)
    have there: "quote_key q \<in> set (map row_key (work b1))"
      using upsert_has_key [of q "created_at_default w" ts "work b"]
      by (simp only: b1 written_work)
    show "inserted b1 = inserted b + 1" "updated b1 = updated b"
      using absent by (simp_all add: b1 written_counts upsert_flag)
    show "inserted b2 = inserted b1" "updated b2 = updated b1 + 1"
      using there by (simp_all add: b2 written_counts upsert_flag)
    have "length (work b1) = Suc (length (work b))"
      using absent by (simp add: b1 written_work upsert_length upsert_flag)
    moreover have "length (work b2) = length (work b1)"
      using there by (simp add: b2 written_work upsert_length upsert_flag)
    ultimately show "length (work b2) = Suc (length tbl)"
      using a by simp
  }
  {
    assume a: "stock_prices w = tbl \<and> process_payload L smb raw w = (Inr r, w')"
    let ?b0 = "\<lparr>work = stock_prices w, inserted = 0, updated = 0\<rparr>"
    obtain entries B where x: "py_getitem raw time_series_key = Inr (JObj entries)"
      "B = foldl (written (created_at_default w) (db_clock w (db_ops w + 2))) ?b0
             (parsed_quotes L smb entries)"
      "stock_prices w' = work B"
      "r = \<lparr>res_symbol = smb, records_inserted = inserted B,
                   records_updated = updated B, status = ''success''\<rparr>"
      using a process_payload_success [of L smb raw w r w'] by blast
    show "res_symbol r = smb" "status r = ''success''"
      by (simp_all add: x(4))
    show "distinct (map row_key (stock_prices w'))"
      using fold_written_distinct [of ?b0] dist a by (simp add: x(2,3))
    show "length (stock_prices w') = length tbl + records_inserted r"
      using fold_written_length [of ?b0 "created_at_default w" "db_clock w (db_ops w + 2)"
          "parsed_quotes L smb entries"] a
      by (simp add: x(2,3,4))
    have "records_inserted r + records_updated r = length (filter (parsed_ok L smb) entries)"
      using fold_written_counts [of "created_at_default w" "db_clock w (db_ops w + 2)" ?b0
          "parsed_quotes L smb entries"]
      by (simp add: x(2,4) parsed_quotes_length)
    then show "\<exists>entries. py_getitem raw time_series_key = Inr (JObj entries)
                \<and> records_inserted r + records_updated r
                    = length (filter (parsed_ok L smb) entries)"
      using x(1) by blast
    {
      assume "process_payload L smb raw w' = (Inr r2, w3)"
      then have t: "records_inserted r2 = 0
          \<and> records_updated r2 = records_inserted r + records_updated r
          \<and> length (stock_prices w3) = length (stock_prices w')"
        using a process_payload_twice [of L smb raw w r w' r2 w3] by blast
      show "records_inserted r2 = 0" using t by blast
      show "records_updated r2 = records_inserted r + records_updated r" using t by blast
      show "length (stock_prices w3) = length (stock_prices w')" using t by blast
    }
  }
qed

theorem upsert_contract_witness:
  "distinct (map row_key [new_row 5 example_quote])
   \<and> upsert (\<lambda>t. t) 5 example_quote [] = ([new_row 5 example_quote], True)
   \<and> upsert (\<lambda>t. t) 6 example_quote [new_row 5 example_quote]
       = ([overwrite 6 example_quote (new_row 5 example_quote)], False)
   \<and> list_ex (same_key example_quote2) [new_row 5 example_quote]
   \<and> (\<exists>x. find_row (quote_key example_quote2)
               (fst (upsert (\<lambda>t. t) 7 example_quote2 [new_row 5 example_quote])) = Some x
         \<and> open_price x = 151 \<and> high_price x = 152 \<and> low_price x = 149
         \<and> close_price x = 150 \<and> volume x = 700000 \<and> created_at x = 7)
   \<and> length (fst (upsert (\<lambda>t. t) 7 example_quote2 [new_row 5 example_quote])) = 1
   \<and> fst (process_payload example_lib ''AAPL'' example_payload example_world)
       = Inr \<lparr>res_symbol = ''AAPL'', records_inserted = 1, records_updated = 0,
              status = ''success''\<rparr>
   \<and> fst (process_payload example_lib ''AAPL'' example_payload
            (snd (process_payload example_lib ''AAPL'' example_payload example_world)))
       = Inr \<lparr>res_symbol = ''AAPL'', records_inserted = 0, records_updated = 1,
              status = ''success''\<rparr>
   \<and> length (stock_prices (snd (process_payload example_lib ''AAPL'' example_payload
            (snd (process_payload example_lib ''AAPL'' example_payload example_world))))) = 1"
proof -
  let ?t1 = "[new_row 5 example_quote]"
  let ?run1 = "process_payload example_lib ''AAPL'' example_payload example_world"
  let ?run2 = "process_payload example_lib ''AAPL'' example_payload (snd ?run1)"
  let ?r1 = "\<lparr>res_symbol = ''AAPL'', records_inserted = 1, records_updated = 0,
              status = ''success''\<rparr>"
  let ?r2 = "\<lparr>res_symbol = ''AAPL'', records_inserted = 0, records_updated = 1,
              status = ''success''\<rparr>"
  have d0: "distinct (map row_key ([] :: row list))" by simp
  have d1: "distinct (map row_key ?t1)" by simp
  have u1: "upsert (\<lambda>t. t) 5 example_quote [] = (?t1, True)"
    by (simp add: upsert_def)
  have u2: "upsert (\<lambda>t. t) 6 example_quote ?t1
       = ([overwrite 6 example_quote (new_row 5 example_quote)], False)"
    by (simp add: upsert_def same_key_def new_row_def)
  have p2: "list_ex (same_key example_quote2) ?t1"
    by (simp add: same_key_def new_row_def example_quote_def example_quote2_def)
  have f1: "fst ?run1 = Inr ?r1"
    by (simp add: run_defs)
  then have e1: "?run1 = (Inr ?r1, snd ?run1)"
    by (simp add: prod_eq_iff)
  have sp0: "stock_prices example_world = []"
    by (simp add: example_world_def)
  have f2: "fst ?run2 = Inr ?r2"
    by (simp add: run_defs)
  then have e2: "?run2 = (Inr ?r2, snd ?run2)"
    by (simp add: prod_eq_iff)
  note runs = upsert_contract [where tbl = "[]" and w = example_world and L = example_lib
      and smb = "''AAPL''" and raw = example_payload and r = ?r1 and w' = "snd ?run1"
      and ?r2.0 = ?r2 and ?w3.0 = "snd ?run2"]
  have l2: "length (stock_prices (snd ?run2)) = 1"
    using runs d0 sp0 e1 e2 by simp
  note second = upsert_contract [where tbl = ?t1 and d = "\<lambda>t. t" and ts = 7
      and q = example_quote2]
  obtain x where x: "find_row (quote_key example_quote2)
               (fst (upsert (\<lambda>t. t) 7 example_quote2 ?t1)) = Some x"
     "open_price x = open_price example_quote2" "high_price x = high_price example_quote2"
     "low_price x = low_price example_quote2" "close_price x = close_price example_quote2"
     "volume x = volume example_quote2" "created_at x = 7"
    using second d1 p2 by blast
  have c5: "\<exists>x. find_row (quote_key example_quote2)
               (fst (upsert (\<lambda>t. t) 7 example_quote2 ?t1)) = Some x
         \<and> open_price x = 151 \<and> high_price x = 152 \<and> low_price x = 149
         \<and> close_price x = 150 \<and> volume x = 700000 \<and> created_at x = 7"
    using x by (simp add: example_quote2_def)
  have c6: "length (fst (upsert (\<lambda>t. t) 7 example_quote2 ?t1)) = 1"
    using second d1 p2 by simp
  show ?thesis
    using d1 u1 u2 p2 c5 c6 f1 f2 l2 by blast
qed



text \<open>
  Claim C5. The claim says that any exception raised after the connection was obtained
  triggers a rollback and a close of the connection before the error reaches the caller. The
  handler calls \<open>conn.rollback()\<close> and \<open>conn.close()\<close> one after the other inside a single
  \<open>try\<close>, so when the first \<open>execute\<close> raises and the rollback raises too (a connection that
  was lost), \<open>conn.close()\<close> is never called: the error propagates with one connection still
  open, and the trace ends with the rollback. On the sibling path, where the rollback
  succeeds, the same handler does close the connection (second part).
\<close>

theorem rollback_failure_skips_close:
  "fst (process_payload example_lib ''AAPL'' example_payload
          (with_faults (\<lambda>n. n = 2 \<or> n = 3) example_world)) = Inl DbError
   \<and> trace (snd (process_payload example_lib ''AAPL'' example_payload
          (with_faults (\<lambda>n. n = 2 \<or> n = 3) example_world)))
       = [DbConnect, DbCursor, DbExecute, DbRollback]
   \<and> open_conns (snd (process_payload example_lib ''AAPL'' example_payload
          (with_faults (\<lambda>n. n = 2 \<or> n = 3) example_world))) = 1
   \<and> fst (process_payload example_lib ''AAPL'' example_payload
          (with_faults (\<lambda>n. n = 2) example_world)) = Inl DbError
   \<and> trace (snd (process_payload example_lib ''AAPL'' example_payload
          (with_faults (\<lambda>n. n = 2) example_world)))
       = [DbConnect, DbCursor, DbExecute, DbRollback, DbClose]
   \<and> open_conns (snd (process_payload example_lib ''AAPL'' example_payload
          (with_faults (\<lambda>n. n = 2) example_world))) = 0"
  by (simp add: run_defs)

text \<open>
  The calls that \<open>process_and_store_data\<close> makes, on every path, once the payload has its
  time series and the connection is established. A call that returns made its calls in the
  order connect, cursor, the writes, one commit, the two closes, so all writes lie in one
  transaction committed after the last entry was attempted, and the committed table is the
  one written by the whole batch. A call that raises has attempted one rollback, after every
  other call; the close of the connection follows exactly when that rollback did not raise,
  and otherwise the connection is left open. When the exception came from the loop or from
  the commit, the committed table is unchanged.
\<close>

theorem transaction_and_cleanup:
  "py_getitem raw time_series_key = Inr series \<and> \<not> db_fault w (db_ops w) \<longrightarrow>
     (process_payload L smb raw w = (Inr r, w') \<longrightarrow>
        (\<exists>entries ws.
            series = JObj entries \<and> list_all is_write ws
            \<and> trace w' = trace w @ [DbConnect, DbCursor] @ ws @ [DbCommit, DbCursorClose, DbClose]
            \<and> stock_prices w'
                = work (foldl (written (created_at_default w) (db_clock w (db_ops w + 2)))
                         \<lparr>work = stock_prices w, inserted = 0, updated = 0\<rparr>
                         (parsed_quotes L smb entries)))
        \<and> open_conns w' = open_conns w)
     \<and> (process_payload L smb raw w = (Inl e, w') \<longrightarrow>
          (\<exists>evs. DbRollback \<notin> set evs
             \<and> (\<not> db_fault w (Suc (db_ops w + length evs))
                  \<and> trace w' = trace w @ DbConnect # evs @ [DbRollback, DbClose]
                  \<and> (\<not> db_fault w (Suc (Suc (db_ops w + length evs))) \<longrightarrow>
                        open_conns w' = open_conns w)
                \<or> db_fault w (Suc (db_ops w + length evs))
                  \<and> trace w' = trace w @ DbConnect # evs @ [DbRollback]
                  \<and> open_conns w' = Suc (open_conns w))
             \<and> (DbCommit \<notin> set evs \<or> last evs = DbCommit \<longrightarrow>
                  stock_prices w' = stock_prices w)))"
proof (intro impI conjI)
  assume a: "py_getitem raw time_series_key = Inr series \<and> \<not> db_fault w (db_ops w)"
    and ok: "process_payload L smb raw w = (Inr r, w')"
  obtain entries ws where x: "py_getitem raw time_series_key = Inr (JObj entries)"
    "list_all is_write ws"
    "trace w' = trace w @ [DbConnect, DbCursor] @ ws @ [DbCommit, DbCursorClose, DbClose]"
    "stock_prices w' = work (foldl (written (created_at_default w) (db_clock w (db_ops w + 2)))
                         \<lparr>work = stock_prices w, inserted = 0, updated = 0\<rparr>
                         (parsed_quotes L smb entries))"
    "open_conns w' = open_conns w"
    using process_payload_success [OF ok] by blast
  have "series = JObj entries" using a x(1) by simp
  then show "\<exists>entries ws.
            series = JObj entries \<and> list_all is_write ws
            \<and> trace w' = trace w @ [DbConnect, DbCursor] @ ws @ [DbCommit, DbCursorClose, DbClose]
            \<and> stock_prices w'
                = work (foldl (written (created_at_default w) (db_clock w (db_ops w + 2)))
                         \<lparr>work = stock_prices w, inserted = 0, updated = 0\<rparr>
                         (parsed_quotes L smb entries))"
    using x(2,3,4) by blast
  show "open_conns w' = open_conns w" by (rule x(5))
next
  assume a: "py_getitem raw time_series_key = Inr series \<and> \<not> db_fault w (db_ops w)"
    and bad: "process_payload L smb raw w = (Inl e, w')"
  show "\<exists>evs. DbRollback \<notin> set evs
             \<and> (\<not> db_fault w (Suc (db_ops w + length evs))
                  \<and> trace w' = trace w @ DbConnect # evs @ [DbRollback, DbClose]
                  \<and> (\<not> db_fault w (Suc (Suc (db_ops w + length evs))) \<longrightarrow>
                        open_conns w' = open_conns w)
                \<or> db_fault w (Suc (db_ops w + length evs))
                  \<and> trace w' = trace w @ DbConnect # evs @ [DbRollback]
                  \<and> open_conns w' = Suc (open_conns w))
             \<and> (DbCommit \<notin> set evs \<or> last evs = DbCommit \<longrightarrow>
                  stock_prices w' = stock_prices w)"
    using process_payload_failure [of raw series w L smb e w'] a bad by blast
qed

theorem transaction_and_cleanup_witness:
  "py_getitem example_payload time_series_key = Inr (JObj example_entries)
   \<and> fst (process_payload example_lib ''AAPL'' example_payload example_world)
       = Inr \<lparr>res_symbol = ''AAPL'', records_inserted = 1, records_updated = 0,
              status = ''success''\<rparr>
   \<and> (\<exists>ws. list_all is_write ws
         \<and> trace (snd (process_payload example_lib ''AAPL'' example_payload example_world))
             = [DbConnect, DbCursor] @ ws @ [DbCommit, DbCursorClose, DbClose])
   \<and> open_conns (snd (process_payload example_lib ''AAPL'' example_payload example_world)) = 0
   \<and> fst (process_payload example_lib ''AAPL'' example_payload
            (with_faults (\<lambda>n. n = 2) example_world)) = Inl DbError
   \<and> (\<exists>evs. DbRollback \<notin> set evs
         \<and> trace (snd (process_payload example_lib ''AAPL'' example_payload
                    (with_faults (\<lambda>n. n = 2) example_world)))
             = DbConnect # evs @ [DbRollback, DbClose])
   \<and> open_conns (snd (process_payload example_lib ''AAPL'' example_payload
            (with_faults (\<lambda>n. n = 2) example_world))) = 0
   \<and> stock_prices (snd (process_payload example_lib ''AAPL'' example_payload
            (with_faults (\<lambda>n. n = 2) example_world))) = []"
proof -
  let ?ok = "process_payload example_lib ''AAPL'' example_payload example_world"
  let ?wf = "with_faults (\<lambda>n. n = 2) example_world"
  let ?bad = "process_payload example_lib ''AAPL'' example_payload ?wf"
  let ?r = "\<lparr>res_symbol = ''AAPL'', records_inserted = 1, records_updated = 0,
              status = ''success''\<rparr>"
  have g: "py_getitem example_payload time_series_key = Inr (JObj example_entries)"
    by (simp add: example_payload_def time_series_key_def)
  have w0: "\<not> db_fault example_world (db_ops example_world)" "trace example_world = []"
    "open_conns example_world = 0" "stock_prices example_world = []"
    by (simp_all add: example_world_def)
  have wf: "\<not> db_fault ?wf (db_ops ?wf)" "trace ?wf = []" "open_conns ?wf = 0"
    "stock_prices ?wf = []" "db_fault ?wf = (\<lambda>n. n = 2)" "db_ops ?wf = 0"
    by (simp_all add: example_world_def with_faults_def)
  have r1: "fst ?ok = Inr ?r"
    by (simp add: run_defs)
  then have e1: "?ok = (Inr ?r, snd ?ok)"
    by (simp add: prod_eq_iff)
  have r2: "fst ?bad = Inl DbError"
    by (simp add: run_defs)
  then have e2: "?bad = (Inl DbError, snd ?bad)"
    by (simp add: prod_eq_iff)
  note ok = transaction_and_cleanup [of example_payload "JObj example_entries" example_world
      example_lib "''AAPL''" ?r "snd ?ok" DbError]
  note bad = transaction_and_cleanup [of example_payload "JObj example_entries" ?wf
      example_lib "''AAPL''" ?r "snd ?bad" DbError]
  have c1: "\<exists>ws. list_all is_write ws
         \<and> trace (snd ?ok) = [DbConnect, DbCursor] @ ws @ [DbCommit, DbCursorClose, DbClose]"
    using ok g w0 e1 by auto
  have c2: "open_conns (snd ?ok) = 0"
    using ok g w0 e1 by auto
  obtain evs where evs: "DbRollback \<notin> set evs"
    "\<not> db_fault ?wf (Suc (db_ops ?wf + length evs))
       \<and> trace (snd ?bad) = trace ?wf @ DbConnect # evs @ [DbRollback, DbClose]
       \<and> (\<not> db_fault ?wf (Suc (Suc (db_ops ?wf + length evs))) \<longrightarrow>
             open_conns (snd ?bad) = open_conns ?wf)
     \<or> db_fault ?wf (Suc (db_ops ?wf + length evs))
       \<and> trace (snd ?bad) = trace ?wf @ DbConnect # evs @ [DbRollback]
       \<and> open_conns (snd ?bad) = Suc (open_conns ?wf)"
    "DbCommit \<notin> set evs \<or> last evs = DbCommit \<longrightarrow>
       stock_prices (snd ?bad) = stock_prices ?wf"
    using bad g wf(1) e2 by blast
  have tr: "trace (snd ?bad) = [DbConnect, DbCursor, DbExecute, DbRollback, DbClose]"
    by (simp add: run_defs)
  have c3: "\<exists>evs. DbRollback \<notin> set evs \<and> trace (snd ?bad) = DbConnect # evs @ [DbRollback, DbClose]"
    using evs(1,2) tr by (auto simp: wf)
  have c4: "open_conns (snd ?bad) = 0" "stock_prices (snd ?bad) = []"
    by (simp_all add: run_defs)
  show ?thesis
    using g r1 c1 c2 r2 c3 c4 by blast
qed

section \<open>Properties of the synthetic data\<close>

subsection \<open>Rounding and printing\<close>

lemma rhe_cases:
  "round_half_even y = \<lfloor>y\<rfloor> \<and> y - of_int \<lfloor>y\<rfloor> \<le> 1 / 2
   \<or> round_half_even y = \<lfloor>y\<rfloor> + 1 \<and> 1 / 2 \<le> y - of_int \<lfloor>y\<rfloor>"
  unfolding round_half_even_def Let_def
  by (cases "y - of_int \<lfloor>y\<rfloor> < 1 / 2"; cases "1 / 2 < y - of_int \<lfloor>y\<rfloor>"; cases "even \<lfloor>y\<rfloor>")
     simp_all

lemma rhe_bounds: "of_int (round_half_even y) - 1 / 2 \<le> y \<and> y \<le> of_int (round_half_even y) + 1 / 2"
proof -
  have "of_int \<lfloor>y\<rfloor> \<le> y" "y < of_int \<lfloor>y\<rfloor> + 1" by linarith+
  then show ?thesis
    using rhe_cases [of y] by (elim disjE conjE) (simp_all, linarith+)
qed

lemma rhe_mono: "x \<le> y \<Longrightarrow> round_half_even x \<le> round_half_even y"
proof -
  assume xy: "x \<le> y"
  have fx: "of_int \<lfloor>x\<rfloor> \<le> x" "x < of_int \<lfloor>x\<rfloor> + 1" by linarith+
  have fy: "of_int \<lfloor>y\<rfloor> \<le> y" "y < of_int \<lfloor>y\<rfloor> + 1" by linarith+
  have fl: "\<lfloor>x\<rfloor> \<le> \<lfloor>y\<rfloor>" using xy by (rule floor_mono)
  show ?thesis
  proof (cases "\<lfloor>x\<rfloor> = \<lfloor>y\<rfloor>")
    case True
    then show ?thesis
      using xy fx fy by (auto simp: round_half_even_def Let_def)
  next
    case False
    then have "\<lfloor>x\<rfloor> + 1 \<le> \<lfloor>y\<rfloor>" using fl by simp
    moreover have "round_half_even x \<le> \<lfloor>x\<rfloor> + 1"
      by (auto simp: round_half_even_def Let_def)
    moreover have "\<lfloor>y\<rfloor> \<le> round_half_even y"
      by (auto simp: round_half_even_def Let_def)
    ultimately show ?thesis by linarith
  qed
qed

lemma rhe_of_int: "round_half_even (of_int n) = n"
  by (simp add: round_half_even_def)

lemma cents_mono: "x \<le> y \<Longrightarrow> cents x \<le> cents y"
  by (simp add: cents_def rhe_mono)

lemma cents_of_int_div: "cents (of_int n / 100) = n"
  by (simp add: cents_def rhe_of_int)

lemma cents_nonneg: "0 \<le> x \<Longrightarrow> 0 \<le> cents x"
  using cents_mono [of 0 x] by (simp add: cents_def rhe_of_int [of 0, simplified])

lemma cents_bounds: "of_int (cents x) - 1 / 2 \<le> x * 100 \<and> x * 100 \<le> of_int (cents x) + 1 / 2"
  using rhe_bounds [of "x * 100"] by (simp add: cents_def)

lemma digit_char_props:
  assumes "d < 10"
  shows "is_digit (digit_char d)" "digit_val (digit_char d) = d"
  using assms by (simp_all add: is_digit_def digit_val_def digit_char_def)

lemma read_digits_snoc:
  "read_digits acc (xs @ [c])
     = (case read_digits acc xs of
          None \<Rightarrow> None
        | Some n \<Rightarrow> if is_digit c then Some (10 * n + digit_val c) else None)"
  by (induction xs arbitrary: acc) simp_all

lemma show_nat_nonempty: "show_nat n \<noteq> []"
  by (subst show_nat.simps) simp

lemma read_digits_show_nat: "read_digits 0 (show_nat n) = Some n"
proof (induction n rule: show_nat.induct)
  case (1 n)
  show ?case
  proof (cases "n < 10")
    case True
    then show ?thesis
      by (subst show_nat.simps) (simp add: digit_char_props)
  next
    case False
    then have "read_digits 0 (show_nat (n div 10)) = Some (n div 10)"
      using "1.IH" by simp
    then show ?thesis
      using False
      by (subst show_nat.simps) (simp add: read_digits_snoc digit_char_props)
  qed
qed

lemma read_nat_show_nat: "read_nat (show_nat n) = Some n"
  by (simp add: read_nat_def show_nat_nonempty read_digits_show_nat)

lemma read_nat_show2: "n < 100 \<Longrightarrow> read_nat (show2 n) = Some n"
  by (simp add: read_nat_def show2_def digit_char_props)

lemma length_show2: "length (show2 n) = 2"
  by (simp add: show2_def)

lemma show2_inj:
  assumes "a < 100" "b < 100" "show2 a = show2 b"
  shows "a = b"
  using read_nat_show2 [OF assms(1)] read_nat_show2 [OF assms(2)] assms(3)
  by (metis option.inject)

lemma read2f_fmt2f:
  assumes "0 \<le> x"
  shows "read2f (fmt2f x) = Some (cents x)"
proof -
  let ?c = "nat (cents x)"
  let ?a = "show_nat (?c div 100)"
  let ?b = "show2 (?c mod 100)"
  have f: "fmt2f x = ?a @ CHR ''.'' # ?b"
    using assms by (simp add: fmt2f_def Let_def)
  have len: "length (fmt2f x) = length ?a + 3"
    by (simp add: f length_show2)
  have a: "?a \<noteq> []" by (rule show_nat_nonempty)
  have dot: "fmt2f x ! (length (fmt2f x) - 3) = CHR ''.''"
    by (simp add: len) (simp add: f nth_append)
  have tk: "take (length (fmt2f x) - 3) (fmt2f x) = ?a"
    by (simp add: len) (simp add: f)
  have dr: "drop (length (fmt2f x) - 2) (fmt2f x) = ?b"
    by (simp add: len) (simp add: f)
  have "read2f (fmt2f x) = Some (int (100 * (?c div 100) + ?c mod 100))"
    unfolding read2f_def Let_def dot tk dr
    using a by (simp add: len read_nat_show_nat read_nat_show2 del: of_nat_add of_nat_mult)
  also have "100 * (?c div 100) + ?c mod 100 = ?c" by simp
  finally show ?thesis
    using cents_nonneg [OF assms] by simp
qed

lemma read_nat_show_int: "0 \<le> i \<Longrightarrow> read_nat (show_int i) = Some (nat i)"
  by (simp add: show_int_def read_nat_show_nat)

subsection \<open>The data points\<close>

lemma draw_point_ok:
  assumes r: "rand_ok w" and base: "0 < base"
  shows "point_ok base (fst (draw_point base w))"
proof -
  define r0 where "r0 = rnd w (rnd_draws w)"
  define r1 where "r1 = rnd w (Suc (rnd_draws w))"
  define r2 where "r2 = rnd w (Suc (Suc (rnd_draws w)))"
  define r3 where "r3 = rnd w (Suc (Suc (Suc (rnd_draws w))))"
  define k where "k = rbelow w (rbelow_draws w) 900001"
  define opn where "opn = base * (1 + (- (5 / 100) + (5 / 100 - - (5 / 100)) * r0))"
  define hi where "hi = opn * (1 + (0 + (2 / 100 - 0) * r1))"
  define lo where "lo = opn * (1 - (0 + (2 / 100 - 0) * r2))"
  define cl where "cl = lo + (hi - lo) * r3"
  have rs: "0 \<le> r0" "r0 < 1" "0 \<le> r1" "r1 < 1" "0 \<le> r2" "r2 < 1" "0 \<le> r3" "r3 < 1"
    "0 \<le> k" "k < 900001"
    using r by (simp_all add: rand_ok_def r0_def r1_def r2_def r3_def k_def)
  have p: "fst (draw_point base w)
      = \<lparr>p_open = opn, p_high = hi, p_low = lo, p_close = cl, p_volume = 100000 + k\<rparr>"
    by (simp add: draw_point_def uniform_def randint_def Let_def opn_def hi_def lo_def cl_def
        r0_def r1_def r2_def r3_def k_def)
  have o1: "95 / 100 * base \<le> opn"
  proof -
    have "base * (95 / 100) \<le> base * (1 + (- (5 / 100) + (5 / 100 - - (5 / 100)) * r0))"
      using rs(1) base by (intro mult_left_mono) simp_all
    then show ?thesis by (simp add: opn_def mult.commute)
  qed
  have o2: "opn \<le> 105 / 100 * base"
  proof -
    have "base * (1 + (- (5 / 100) + (5 / 100 - - (5 / 100)) * r0)) \<le> base * (105 / 100)"
      using rs(2) base by (intro mult_left_mono) simp_all
    then show ?thesis by (simp add: opn_def mult.commute)
  qed
  have opos: "0 < opn" using o1 base by simp
  have h1: "opn \<le> hi"
  proof -
    have "opn * 1 \<le> opn * (1 + (0 + (2 / 100 - 0) * r1))"
      using rs(3) opos by (intro mult_left_mono) simp_all
    then show ?thesis by (simp add: hi_def)
  qed
  have h2: "hi \<le> 102 / 100 * opn"
  proof -
    have "opn * (1 + (0 + (2 / 100 - 0) * r1)) \<le> opn * (102 / 100)"
      using rs(4) opos by (intro mult_left_mono) simp_all
    then show ?thesis by (simp add: hi_def mult.commute)
  qed
  have l1: "98 / 100 * opn \<le> lo"
  proof -
    have "opn * (98 / 100) \<le> opn * (1 - (0 + (2 / 100 - 0) * r2))"
      using rs(6) opos by (intro mult_left_mono) simp_all
    then show ?thesis by (simp add: lo_def mult.commute)
  qed
  have l2: "lo \<le> opn"
  proof -
    have "opn * (1 - (0 + (2 / 100 - 0) * r2)) \<le> opn * 1"
      using rs(5) opos by (intro mult_left_mono) simp_all
    then show ?thesis by (simp add: lo_def)
  qed
  have d: "0 \<le> hi - lo" using h1 l2 by simp
  have c1: "lo \<le> cl"
    using d rs(7) by (simp add: cl_def)
  have c2: "cl \<le> hi"
  proof -
    have "(hi - lo) * r3 \<le> (hi - lo) * 1"
      using d rs(8) by (intro mult_left_mono) simp_all
    then show ?thesis by (simp add: cl_def)
  qed
  show ?thesis
    unfolding p point_ok_def using o1 o2 h1 h2 l1 l2 c1 c2 rs(9,10) by simp
qed

lemma print_point_fields:
  "field_cents (print_point p) ''1. open'' = read2f (fmt2f (p_open p))"
  "field_cents (print_point p) ''2. high'' = read2f (fmt2f (p_high p))"
  "field_cents (print_point p) ''3. low'' = read2f (fmt2f (p_low p))"
  "field_cents (print_point p) ''4. close'' = read2f (fmt2f (p_close p))"
  "field_nat (print_point p) ''5. volume'' = read_nat (show_int (p_volume p))"
  by (simp_all add: field_cents_def field_nat_def print_point_def)

lemma print_point_ok:
  assumes ok: "point_ok base p" and b: "base = of_int k" "0 < k"
  shows "entry_ok base (print_point p)"
proof -
  have base: "0 < base" using b by simp
  have pos: "0 \<le> p_open p" "0 \<le> p_high p" "0 \<le> p_low p" "0 \<le> p_close p" "0 \<le> p_volume p"
    using ok base by (auto simp: point_ok_def)
  have f: "field_cents (print_point p) ''1. open'' = Some (cents (p_open p))"
    "field_cents (print_point p) ''2. high'' = Some (cents (p_high p))"
    "field_cents (print_point p) ''3. low'' = Some (cents (p_low p))"
    "field_cents (print_point p) ''4. close'' = Some (cents (p_close p))"
    "field_nat (print_point p) ''5. volume'' = Some (nat (p_volume p))"
    using pos by (simp_all add: print_point_fields read2f_fmt2f read_nat_show_int)
  have order: "cents (p_low p) \<le> cents (p_close p)" "cents (p_close p) \<le> cents (p_high p)"
    "cents (p_low p) \<le> cents (p_open p)" "cents (p_open p) \<le> cents (p_high p)"
    using ok by (auto simp: point_ok_def intro: cents_mono)
  have "cents (of_int (95 * k) / 100) \<le> cents (p_open p)"
    using ok by (intro cents_mono) (simp add: point_ok_def b)
  then have "95 * k \<le> cents (p_open p)"
    by (simp only: cents_of_int_div)
  then have "(of_int (95 * k) :: rat) \<le> of_int (cents (p_open p))"
    by (simp only: of_int_le_iff)
  then have lo5: "95 * base \<le> of_int (cents (p_open p))"
    by (simp add: b)
  have "cents (p_open p) \<le> cents (of_int (105 * k) / 100)"
    using ok by (intro cents_mono) (simp add: point_ok_def b)
  then have "cents (p_open p) \<le> 105 * k"
    by (simp only: cents_of_int_div)
  then have "(of_int (cents (p_open p)) :: rat) \<le> of_int (105 * k)"
    by (simp only: of_int_le_iff)
  then have hi5: "of_int (cents (p_open p)) \<le> 105 * base"
    by (simp add: b)
  note bo = cents_bounds [of "p_open p"]
  note bh = cents_bounds [of "p_high p"]
  note bl = cents_bounds [of "p_low p"]
  have "100 * (of_int (cents (p_high p)) :: rat) \<le> 102 * of_int (cents (p_open p)) + 101"
    using ok bo bh by (simp add: point_ok_def)
  then have "(of_int (100 * cents (p_high p)) :: rat) \<le> of_int (102 * cents (p_open p) + 101)"
    by simp
  then have h2: "100 * cents (p_high p) \<le> 102 * cents (p_open p) + 101"
    by (simp only: of_int_le_iff)
  have "98 * (of_int (cents (p_open p)) :: rat) \<le> 100 * of_int (cents (p_low p)) + 99"
    using ok bo bl by (simp add: point_ok_def)
  then have "(of_int (98 * cents (p_open p)) :: rat) \<le> of_int (100 * cents (p_low p) + 99)"
    by simp
  then have l2: "98 * cents (p_open p) \<le> 100 * cents (p_low p) + 99"
    by (simp only: of_int_le_iff)
  have vol: "100000 \<le> nat (p_volume p)" "nat (p_volume p) \<le> 1000000"
    using ok by (auto simp: point_ok_def)
  show ?thesis
    unfolding entry_ok_def f using order lo5 hi5 h2 l2 vol by simp
qed

subsection \<open>The loop\<close>

lemma rand_ok_outside: "same_outside w w' \<Longrightarrow> rand_ok w' = rand_ok w"
  by (simp add: rand_ok_def same_outside_def)

lemma now_eq: "now w = (clock w (clock_reads w), w\<lparr>clock_reads := Suc (clock_reads w)\<rparr>)"
  by (simp add: now_def)

lemma draw_point_clock_reads: "clock_reads (snd (draw_point b w)) = clock_reads w"
  by (simp add: draw_point_def uniform_def randint_def Let_def)

lemma demo_step_eq:
  "demo_step b i s w =
     (AList.update (strftime_hour (clock w (clock_reads w) - int i * HOUR))
        (print_point (fst (draw_point b (w\<lparr>clock_reads := Suc (clock_reads w)\<rparr>)))) s,
      snd (draw_point b (w\<lparr>clock_reads := Suc (clock_reads w)\<rparr>)))"
  by (simp add: demo_step_def now_eq split: prod.splits)

lemma demo_step_clock:
  "clock (snd (demo_step b i s w)) = clock w"
  "clock_reads (snd (demo_step b i s w)) = Suc (clock_reads w)"
  using demo_step_outside [of w b i s]
  by (simp_all add: same_outside_def) (simp add: demo_step_eq draw_point_clock_reads)

lemma demo_step_keys:
  "map fst (fst (demo_step b i s w))
     = add_key (map fst s) (strftime_hour (clock w (clock_reads w) - int i * HOUR))"
  by (simp add: demo_step_eq update_keys add_key_def)

lemma demo_loop_keys:
  "map fst (fst (demo_loop b is s w)) = loop_keys (clock w) (clock_reads w) is (map fst s)"
proof (induction "is" arbitrary: s w)
  case Nil
  show ?case by simp
next
  case (Cons i rest)
  obtain s1 w1 where st: "demo_step b i s w = (s1, w1)" by force
  have k: "map fst s1 = add_key (map fst s) (strftime_hour (clock w (clock_reads w) - int i * HOUR))"
    using demo_step_keys [of b i s w] st by simp
  have c: "clock w1 = clock w" "clock_reads w1 = Suc (clock_reads w)"
    using demo_step_clock [of b i s w] st by simp_all
  show ?case
    using Cons.IH [of s1 w1] by (simp add: st k c)
qed

lemma demo_step_entries:
  assumes "rand_ok w" "0 < b" "b = of_int k"
    "list_all (\<lambda>e. entry_ok b (snd e) \<and> (\<exists>p. snd e = print_point p \<and> point_ok b p)) s"
  shows "list_all (\<lambda>e. entry_ok b (snd e) \<and> (\<exists>p. snd e = print_point p \<and> point_ok b p))
           (fst (demo_step b i s w))"
proof -
  let ?w1 = "w\<lparr>clock_reads := Suc (clock_reads w)\<rparr>"
  let ?p = "fst (draw_point b ?w1)"
  have "rand_ok ?w1" using assms(1) by (simp add: rand_ok_def)
  then have p: "point_ok b ?p" using assms(2) by (rule draw_point_ok)
  have k: "0 < k" using assms(2,3) by simp
  have e: "entry_ok b (print_point ?p)"
    using print_point_ok [OF p assms(3) k] .
  have upd: "list_all Q (AList.update key v al)" if "Q (key, v)" "list_all Q al"
    for Q :: "string \<times> json \<Rightarrow> bool" and key v al
    using that by (induction al) auto
  show ?thesis
    unfolding demo_step_eq fst_conv
  proof (rule upd)
    show "entry_ok b (snd (strftime_hour (clock w (clock_reads w) - int i * HOUR), print_point ?p))
        \<and> (\<exists>p. snd (strftime_hour (clock w (clock_reads w) - int i * HOUR), print_point ?p)
                  = print_point p \<and> point_ok b p)"
      using e p by auto
    show "list_all (\<lambda>e. entry_ok b (snd e) \<and> (\<exists>p. snd e = print_point p \<and> point_ok b p)) s"
      by (rule assms(4))
  qed
qed

lemma demo_loop_entries:
  assumes "rand_ok w" "0 < b" "b = of_int k"
    "list_all (\<lambda>e. entry_ok b (snd e) \<and> (\<exists>p. snd e = print_point p \<and> point_ok b p)) s"
  shows "list_all (\<lambda>e. entry_ok b (snd e) \<and> (\<exists>p. snd e = print_point p \<and> point_ok b p))
           (fst (demo_loop b is s w))"
  using assms(1,4)
proof (induction "is" arbitrary: s w)
  case Nil
  then show ?case by simp
next
  case (Cons i rest)
  obtain s1 w1 where st: "demo_step b i s w = (s1, w1)" by force
  have 1: "list_all (\<lambda>e. entry_ok b (snd e) \<and> (\<exists>p. snd e = print_point p \<and> point_ok b p)) s1"
    using demo_step_entries [OF Cons.prems(1) assms(2,3) Cons.prems(2), of i] st by simp
  have 2: "rand_ok w1"
    using demo_step_outside [of w b i s] st Cons.prems(1) by (simp add: rand_ok_outside)
  show ?case
    using Cons.IH [OF 2 1] by (simp add: st)
qed

lemma base_price_int: "\<exists>k. 0 < k \<and> base_price smb = of_int k"
proof -
  have "base_price smb \<in> of_int ` {150, 2800, 300, 3000, 200, 100 :: int}"
    by (simp add: base_price_def base_prices_def)
  then obtain k :: int where k: "k \<in> {150, 2800, 300, 3000, 200, 100}" "base_price smb = of_int k"
    by blast
  have "0 < k" using k(1) by auto
  then show ?thesis using k(2) by blast
qed

subsection \<open>The timestamps\<close>

lemma hour_stamp_mod:
  assumes "hour_stamp a = hour_stamp b"
  shows "a mod 24 = b mod 24"
proof -
  let ?x = "show2 (nat (a mod 24)) @ '':00:00''"
  let ?y = "show2 (nat (b mod 24)) @ '':00:00''"
  have "(show_date (a div 24) @ '' '') @ ?x = (show_date (b div 24) @ '' '') @ ?y"
    using assms by (simp add: hour_stamp_def)
  moreover have "length ?x = length ?y" by (simp add: length_show2)
  ultimately have "?x = ?y" by (metis append_eq_append_conv)
  then have "show2 (nat (a mod 24)) = show2 (nat (b mod 24))" by simp
  moreover have "nat (a mod 24) < 100" "nat (b mod 24) < 100" by simp_all
  ultimately have "nat (a mod 24) = nat (b mod 24)" using show2_inj by blast
  then show ?thesis by simp
qed

lemma hour_stamp_eq:
  assumes "\<bar>a - b\<bar> < 24"
  shows "hour_stamp a = hour_stamp b \<longleftrightarrow> a = b"
proof
  assume "hour_stamp a = hour_stamp b"
  then have "a mod 24 = b mod 24" by (rule hour_stamp_mod)
  then have "24 dvd (a - b)" by (simp add: mod_eq_dvd_iff)
  then obtain k where k: "a - b = 24 * k" by (auto simp: dvd_def)
  then have "\<bar>24 * k\<bar> < 24" using assms by simp
  then have "k = 0" by linarith
  then show "a = b" using k by simp
qed simp

lemma hours_back: "(t - int i * HOUR) div HOUR = t div HOUR - int i"
proof -
  have "(t + (- int i) * HOUR) div HOUR = - int i + t div HOUR"
    by (rule div_mult_self1) (simp add: HOUR_def)
  then show ?thesis by simp
qed

lemma strftime_hours_back: "strftime_hour (t - int i * HOUR) = hour_stamp (t div HOUR - int i)"
  by (simp add: strftime_hour_def hours_back)

lemma loop_keys_same_hour:
  assumes "\<forall>j < length is. clk (n + j) div HOUR = h"
  shows "loop_keys clk n is ks = foldl add_key ks (map (\<lambda>i. hour_stamp (h - int i)) is)"
  using assms
proof (induction "is" arbitrary: n ks)
  case Nil
  show ?case by simp
next
  case (Cons i rest)
  have 0: "clk n div HOUR = h" using Cons.prems by auto
  have "\<forall>j < length rest. clk (Suc n + j) div HOUR = h"
    using Cons.prems by auto
  then show ?case
    using Cons.IH [of "Suc n"] by (simp add: strftime_hours_back 0)
qed

lemma foldl_add_key_distinct: "distinct (ks @ new) \<Longrightarrow> foldl add_key ks new = ks @ new"
  by (induction new arbitrary: ks) (auto simp: add_key_def)

lemma stamps_distinct:
  assumes "n \<le> 24"
  shows "distinct (map (\<lambda>i. hour_stamp (h - int i)) [0 ..< n])"
proof -
  have "inj_on (\<lambda>i. hour_stamp (h - int i)) (set [0 ..< n])"
  proof (rule inj_onI)
    fix i j
    assume "i \<in> set [0 ..< n]" "j \<in> set [0 ..< n]"
      and e: "hour_stamp (h - int i) = hour_stamp (h - int j)"
    then have "\<bar>(h - int i) - (h - int j)\<bar> < 24" using assms by auto
    then have "h - int i = h - int j" using e hour_stamp_eq by blast
    then show "i = j" by simp
  qed
  then show ?thesis by (simp add: distinct_map)
qed

lemma loop_keys_length: "length (loop_keys clk n is ks) \<le> length ks + length is"
proof (induction "is" arbitrary: n ks)
  case Nil
  show ?case by simp
next
  case (Cons i rest)
  let ?k = "strftime_hour (clk n - int i * HOUR)"
  have "length (add_key ks ?k) \<le> Suc (length ks)"
    by (simp add: add_key_def)
  moreover have "length (loop_keys clk (Suc n) rest (add_key ks ?k))
      \<le> length (add_key ks ?k) + length rest"
    by (rule Cons.IH)
  ultimately show ?case by simp
qed

lemma series_of_demo:
  "series_of (fst (get_demo_data smb w))
     = fst (demo_loop (base_price smb) [0 ..< 5] [] (w\<lparr>clock_reads := Suc (clock_reads w)\<rparr>))"
  unfolding get_demo_data_def now_eq prod.case
  by (simp only: split_beta fst_conv series_of_def time_series_key_def py_getitem.simps)
     simp

lemma series_keys:
  "map fst (series_of (fst (get_demo_data smb w)))
     = loop_keys (clock w) (Suc (clock_reads w)) [0 ..< 5] []"
  unfolding series_of_demo by (simp only: demo_loop_keys) simp

lemma rhe_unique:
  assumes "of_int n - 1 / 2 < y" "y < of_int n + 1 / 2"
  shows "round_half_even y = n"
proof -
  have "(of_int (round_half_even y) :: rat) < of_int n + 1" "(of_int n :: rat) < of_int (round_half_even y) + 1"
    using rhe_bounds [of y] assms by linarith+
  then have "(of_int (round_half_even y) :: rat) < of_int (n + 1)"
    "(of_int n :: rat) < of_int (round_half_even y + 1)"
    by simp_all
  then have "round_half_even y < n + 1" "n < round_half_even y + 1"
    by (simp_all only: of_int_less_iff)
  then show ?thesis by simp
qed

lemma cents_unique:
  assumes "of_int n - 1 / 2 < x * 100" "x * 100 < of_int n + 1 / 2"
  shows "cents x = n"
  using assms by (simp add: cents_def rhe_unique)

lemma set_add_key: "set (add_key ks k) = insert k (set ks)"
  by (auto simp: add_key_def)

lemma loop_keys_set: "set (loop_keys clk n is ks) = set ks \<union> set (loop_keys clk n is [])"
proof (induction "is" arbitrary: n ks)
  case Nil
  show ?case by simp
next
  case (Cons i rest)
  let ?k = "strftime_hour (clk n - int i * HOUR)"
  have "set (loop_keys clk (Suc n) rest (add_key ks ?k))
      = set (add_key ks ?k) \<union> set (loop_keys clk (Suc n) rest [])"
    by (rule Cons.IH)
  moreover have "set (loop_keys clk (Suc n) rest (add_key [] ?k))
      = set (add_key [] ?k) \<union> set (loop_keys clk (Suc n) rest [])"
    by (rule Cons.IH)
  ultimately show ?case by (simp add: set_add_key)
qed

lemma demo_loop_lookup_other:
  assumes "K \<notin> set (loop_keys (clock w) (clock_reads w) is [])"
  shows "map_of (fst (demo_loop b is s w)) K = map_of s K"
  using assms
proof (induction "is" arbitrary: s w)
  case Nil
  show ?case by simp
next
  case (Cons i rest)
  let ?k = "strftime_hour (clock w (clock_reads w) - int i * HOUR)"
  obtain s1 w1 where st: "demo_step b i s w = (s1, w1)" by force
  have c: "clock w1 = clock w" "clock_reads w1 = Suc (clock_reads w)"
    using demo_step_clock [of b i s w] st by simp_all
  have "K \<in> set (loop_keys (clock w) (Suc (clock_reads w)) rest (add_key [] ?k)) \<longleftrightarrow>
        K = ?k \<or> K \<in> set (loop_keys (clock w) (Suc (clock_reads w)) rest [])"
    by (subst loop_keys_set) (simp add: set_add_key)
  then have ne: "K \<noteq> ?k" and rest: "K \<notin> set (loop_keys (clock w1) (clock_reads w1) rest [])"
    using Cons.prems by (simp_all add: c)
  have "map_of s1 K = map_of s K"
    using st ne by (auto simp: demo_step_eq update_conv')
  then show ?case
    using Cons.IH [OF rest, of s1] by (simp add: st)
qed

lemma demo_loop_lookup_first:
  assumes "strftime_hour (clock w (clock_reads w) - int i * HOUR)
             \<notin> set (loop_keys (clock w) (Suc (clock_reads w)) rest [])"
  shows "map_of (fst (demo_loop b (i # rest) s w))
           (strftime_hour (clock w (clock_reads w) - int i * HOUR))
         = Some (print_point (fst (draw_point b (w\<lparr>clock_reads := Suc (clock_reads w)\<rparr>))))"
proof -
  let ?k = "strftime_hour (clock w (clock_reads w) - int i * HOUR)"
  obtain s1 w1 where st: "demo_step b i s w = (s1, w1)" by force
  have c: "clock w1 = clock w" "clock_reads w1 = Suc (clock_reads w)"
    using demo_step_clock [of b i s w] st by simp_all
  have "map_of s1 ?k = Some (print_point (fst (draw_point b (w\<lparr>clock_reads := Suc (clock_reads w)\<rparr>))))"
    using st by (auto simp: demo_step_eq update_conv')
  moreover have "map_of (fst (demo_loop b rest s1 w1)) ?k = map_of s1 ?k"
    by (rule demo_loop_lookup_other) (use assms in \<open>simp add: c\<close>)
  ultimately show ?thesis by (simp add: st)
qed

lemma upt_5: "[0 ..< 5] = [0, 1, 2, 3, 4]"
  by (simp add: upt_rec)

lemma demo_payload_series:
  "py_getitem (fst (get_demo_data smb w)) time_series_key
     = Inr (JObj (series_of (fst (get_demo_data smb w))))"
  unfolding series_of_demo
  unfolding get_demo_data_def now_eq prod.case
  by (simp only: split_beta fst_conv time_series_key_def py_getitem.simps) simp

subsection \<open>The two concrete worlds\<close>

lemma crossing_keys:
  "loop_keys (clock crossing_world) (Suc (clock_reads crossing_world)) [0 ..< 5] []
     = [hour_stamp 480743, hour_stamp 480742, hour_stamp 480741, hour_stamp 480740]"
  unfolding upt_5
  by (simp add: crossing_world_def example_world_def strftime_hour_def HOUR_def add_key_def
      hour_stamp_eq)

lemma rounding_point:
  "fst (draw_point 150 (rounding_world\<lparr>clock_reads := 2\<rparr>))
     = \<lparr>p_open = 1502549 / 10000, p_high = 76628496451 / 500000000,
        p_low = 73626403549 / 500000000, p_close = 38312747179049 / 250000000000,
        p_volume = 550000\<rparr>"
  by (simp add: draw_point_def uniform_def randint_def rounding_world_def example_world_def)

text \<open>
  Claim C7, as stated, fails in two ways. When the clock passes an hour boundary between
  two rounds of the loop, two rounds produce the same timestamp and the payload has 4
  entries. And the prices are printed with two decimals: an open of 150.2549 is printed
  150.25 and a high of 153.2569... is printed 153.26, which is more than 2 percent above
  the printed open.
\<close>

theorem synthetic_payload_counterexample:
  "no_valid_key (env crossing_world ALPHA_VANTAGE_API_KEY) \<and> rand_ok crossing_world
   \<and> fetch_stock_data ''AAPL'' crossing_world = demo_result ''AAPL'' crossing_world
   \<and> length (series_of (fst (get_demo_data ''AAPL'' crossing_world))) = 4
   \<and> no_valid_key (env rounding_world ALPHA_VANTAGE_API_KEY) \<and> rand_ok rounding_world
   \<and> fetch_stock_data ''AAPL'' rounding_world = demo_result ''AAPL'' rounding_world
   \<and> printed_cents (fst (get_demo_data ''AAPL'' rounding_world))
         (strftime_hour 1730678400000000) ''1. open'' = Some 15025
   \<and> printed_cents (fst (get_demo_data ''AAPL'' rounding_world))
         (strftime_hour 1730678400000000) ''2. high'' = Some 15326
   \<and> \<not> 100 * 15326 \<le> 102 * (15025 :: int)"
proof -
  let ?K = "strftime_hour 1730678400000000"
  let ?w1 = "rounding_world\<lparr>clock_reads := 1\<rparr>"
  let ?P = "fst (draw_point 150 (rounding_world\<lparr>clock_reads := 2\<rparr>))"
  have c0: "no_valid_key (env crossing_world ALPHA_VANTAGE_API_KEY)" "rand_ok crossing_world"
    by (simp_all add: crossing_world_def example_world_def no_valid_key_def rand_ok_def)
  have r0: "no_valid_key (env rounding_world ALPHA_VANTAGE_API_KEY)" "rand_ok rounding_world"
    by (simp_all add: rounding_world_def example_world_def no_valid_key_def rand_ok_def)
  have "length (map fst (series_of (fst (get_demo_data ''AAPL'' crossing_world)))) = 4"
    by (simp only: series_keys crossing_keys) simp
  then have c1: "length (series_of (fst (get_demo_data ''AAPL'' crossing_world))) = 4"
    by simp
  have base: "base_price ''AAPL'' = 150"
    by (simp add: base_price_def base_prices_def)
  have start: "rounding_world\<lparr>clock_reads := Suc (clock_reads rounding_world)\<rparr> = ?w1"
    by (simp add: rounding_world_def example_world_def)
  have next_w: "?w1\<lparr>clock_reads := Suc (clock_reads ?w1)\<rparr> = rounding_world\<lparr>clock_reads := 2\<rparr>"
    by simp
  have K: "?K = hour_stamp 480744"
    by (simp add: strftime_hour_def HOUR_def)
  have k0: "strftime_hour (clock ?w1 (clock_reads ?w1) - int 0 * HOUR) = hour_stamp 480744"
    by (simp add: rounding_world_def example_world_def strftime_hour_def HOUR_def)
  have later: "loop_keys (clock ?w1) (Suc (clock_reads ?w1)) [1, 2, 3, 4] []
      = [hour_stamp 480743, hour_stamp 480742, hour_stamp 480741, hour_stamp 480740]"
    by (simp add: rounding_world_def example_world_def strftime_hour_def HOUR_def add_key_def
        hour_stamp_eq)
  have notin: "strftime_hour (clock ?w1 (clock_reads ?w1) - int 0 * HOUR)
      \<notin> set (loop_keys (clock ?w1) (Suc (clock_reads ?w1)) [1, 2, 3, 4] [])"
    unfolding k0 later by (simp add: hour_stamp_eq)
  have "map_of (fst (demo_loop 150 [0, 1, 2, 3, 4] [] ?w1)) (hour_stamp 480744)
      = Some (print_point ?P)"
    using demo_loop_lookup_first [OF notin, of 150 "[]"]
    unfolding k0 next_w .
  then have "map_of (series_of (fst (get_demo_data ''AAPL'' rounding_world))) ?K
      = Some (print_point ?P)"
    unfolding series_of_demo base upt_5 start K .
  then have entry: "printed_cents (fst (get_demo_data ''AAPL'' rounding_world)) ?K f
      = field_cents (print_point ?P) f" for f
    by (simp add: printed_cents_def demo_payload_series)
  have o: "cents (1502549 / 10000) = 15025"
    by (rule cents_unique) simp_all
  have h: "cents (76628496451 / 500000000) = 15326"
    by (rule cents_unique) simp_all
  have r1: "printed_cents (fst (get_demo_data ''AAPL'' rounding_world)) ?K ''1. open'' = Some 15025"
    unfolding entry print_point_fields rounding_point
    by (simp add: read2f_fmt2f o)
  have r2: "printed_cents (fst (get_demo_data ''AAPL'' rounding_world)) ?K ''2. high'' = Some 15326"
    unfolding entry print_point_fields rounding_point
    by (simp add: read2f_fmt2f h)
  show ?thesis
    using c0 c1 r0 r1 r2 by (simp add: fetch_no_key demo_result_def)
qed

text \<open>
  Claim C7, amended. Without a valid credential, and for every outcome of the random draws,
  \<open>fetch_stock_data\<close> returns the synthetic payload; its time series has at most 5 entries;
  every entry is the print of a data point with open within 5 percent of the symbol's base
  price, high within 2 percent above open, low within 2 percent below open, close between
  low and high and an integer volume in [100000, 1000000]; and as printed, every entry
  has low \<open>\<le>\<close> close \<open>\<le>\<close> high, low \<open>\<le>\<close> open \<open>\<le>\<close> high, open within 5 percent of the base price,
  high and low within 2 percent of open up to the rounding to hundredths, and the volume
  in its range. When the five clock readings of the loop lie in one hour, the entries are
  exactly 5, with the timestamps of that hour and of the 4 hours before it. Floats are
  exact rationals here.
\<close>

theorem synthetic_payload_contents:
  "no_valid_key (env w ALPHA_VANTAGE_API_KEY) \<and> rand_ok w \<longrightarrow>
     fetch_stock_data smb w = demo_result smb w
     \<and> py_getitem (fst (get_demo_data smb w)) time_series_key
         = Inr (JObj (series_of (fst (get_demo_data smb w))))
     \<and> length (series_of (fst (get_demo_data smb w))) \<le> 5
     \<and> list_all (\<lambda>e. entry_ok (base_price smb) (snd e)
                      \<and> (\<exists>p. snd e = print_point p \<and> point_ok (base_price smb) p))
          (series_of (fst (get_demo_data smb w)))
     \<and> ((\<forall>j < 5. clock w (Suc (clock_reads w) + j) div HOUR
                     = clock w (Suc (clock_reads w)) div HOUR) \<longrightarrow>
          map fst (series_of (fst (get_demo_data smb w)))
            = map (\<lambda>i. strftime_hour (clock w (Suc (clock_reads w)) - int i * HOUR)) [0 ..< 5]
          \<and> distinct (map fst (series_of (fst (get_demo_data smb w))))
          \<and> length (series_of (fst (get_demo_data smb w))) = 5)"
proof (intro impI conjI)
  assume a: "no_valid_key (env w ALPHA_VANTAGE_API_KEY) \<and> rand_ok w"
  let ?s = "series_of (fst (get_demo_data smb w))"
  let ?w1 = "w\<lparr>clock_reads := Suc (clock_reads w)\<rparr>"
  show "fetch_stock_data smb w = demo_result smb w"
    using a by (simp add: fetch_no_key demo_result_def)
  show "py_getitem (fst (get_demo_data smb w)) time_series_key = Inr (JObj ?s)"
    by (rule demo_payload_series)
  have "length (map fst ?s) \<le> length ([] :: string list) + length [0 ..< 5]"
    unfolding series_keys by (rule loop_keys_length)
  then show "length ?s \<le> 5" by simp
  obtain k where k: "0 < k" "base_price smb = of_int k"
    using base_price_int by blast
  have r1: "rand_ok ?w1" using a by (simp add: rand_ok_def)
  have b: "0 < base_price smb" using k by simp
  show "list_all (\<lambda>e. entry_ok (base_price smb) (snd e)
                      \<and> (\<exists>p. snd e = print_point p \<and> point_ok (base_price smb) p)) ?s"
    unfolding series_of_demo
    by (rule demo_loop_entries [OF r1 b k(2)]) simp
next
  assume a: "no_valid_key (env w ALPHA_VANTAGE_API_KEY) \<and> rand_ok w"
    and h: "\<forall>j < 5. clock w (Suc (clock_reads w) + j) div HOUR
                     = clock w (Suc (clock_reads w)) div HOUR"
  let ?s = "series_of (fst (get_demo_data smb w))"
  let ?h = "clock w (Suc (clock_reads w)) div HOUR"
  let ?stamps = "map (\<lambda>i. hour_stamp (?h - int i)) [0 ..< 5]"
  have "\<forall>j < length [0 ..< 5 :: nat]. clock w (Suc (clock_reads w) + j) div HOUR = ?h"
    using h by simp
  then have "loop_keys (clock w) (Suc (clock_reads w)) [0 ..< 5] [] = foldl add_key [] ?stamps"
    by (rule loop_keys_same_hour)
  moreover have d: "distinct ?stamps"
    by (rule stamps_distinct) simp
  ultimately have keys: "map fst ?s = ?stamps"
    using foldl_add_key_distinct [of "[]" ?stamps] by (simp only: series_keys append_Nil)
  show "map fst ?s
      = map (\<lambda>i. strftime_hour (clock w (Suc (clock_reads w)) - int i * HOUR)) [0 ..< 5]"
    unfolding keys by (simp only: strftime_hours_back)
  show "distinct (map fst ?s)"
    unfolding keys by (rule d)
  have "length (map fst ?s) = 5"
    unfolding keys by simp
  then show "length ?s = 5" by simp
qed

theorem synthetic_payload_contents_witness:
  "no_valid_key (env example_world ALPHA_VANTAGE_API_KEY) \<and> rand_ok example_world
   \<and> fetch_stock_data ''AAPL'' example_world = demo_result ''AAPL'' example_world
   \<and> length (series_of (fst (get_demo_data ''AAPL'' example_world))) = 5
   \<and> distinct (map fst (series_of (fst (get_demo_data ''AAPL'' example_world))))
   \<and> list_all (\<lambda>e. entry_ok (base_price ''AAPL'') (snd e)
                    \<and> (\<exists>p. snd e = print_point p \<and> point_ok (base_price ''AAPL'') p))
        (series_of (fst (get_demo_data ''AAPL'' example_world)))"
proof -
  have a: "no_valid_key (env example_world ALPHA_VANTAGE_API_KEY)" "rand_ok example_world"
    by (simp_all add: example_world_def no_valid_key_def rand_ok_def)
  have h: "\<forall>j < 5. clock example_world (Suc (clock_reads example_world) + j) div HOUR
                     = clock example_world (Suc (clock_reads example_world)) div HOUR"
    by (simp add: example_world_def)
  show ?thesis
    using synthetic_payload_contents [of example_world "''AAPL''"] a h by blast
qed

end
